theory Spec2Isabelle
  imports Main
begin

section \<open>The test runner of \<open>nbnursery/testutils.py\<close>\<close>

text \<open>
  A shallow embedding of the grading engine: scenarios, cases, groups and suites, their
  execution against a module namespace, and the serialised report.

  Conventions of the embedding.
  \<^item> Python values handed to a verification routine are of an arbitrary type \<open>'v\<close>;
    exceptions raised by a routine or by artifact code are of an arbitrary type \<open>'e\<close>.
  \<^item> The loaded module is its namespace, a map from attribute names to values. Artifact
    code may rebind names, so every execution returns the namespace it leaves behind.
  \<^item> A routine is a deterministic state transformer that returns: it maps its positional
    arguments and the namespace to an optional exception and the new namespace.
  \<^item> Object identity (\<open>id(a)\<close>) of a \<open>Param\<close> is a natural number carried by the
    object.
  \<^item> A reference that Python lets be \<open>None\<close> is an \<open>option\<close>.
\<close>

subsection \<open>Values, exceptions, callables\<close>

type_synonym 'v module = "string \<rightharpoonup> 'v"

text \<open>
  Exceptions that reach the \<open>except\<close> clause of \<open>TestCase.execute\<close>: the two that
  argument resolution raises itself (\<open>getattr\<close> on a missing name, a missing key of
  \<open>params\<close>), and whatever the routine raises.
\<close>

datatype 'e exn = AttributeError string | KeyError nat | Raised 'e

text \<open>Errors the engine raises itself, outside any \<open>try\<close>.\<close>

datatype error =
    NotAllPositional string
    \<comment> \<open>TypeError: input arguments of wrapped function \<open>name\<close> must all be positional\<close>
  | TooManyArguments string
    \<comment> \<open>TypeError: wrapped function \<open>name\<close> has too many input arguments per decorator config\<close>
  | NotEnoughArguments string
    \<comment> \<open>TypeError: wrapped function \<open>name\<close> does not have enough input arguments decorator config\<close>
  | FieldCountMismatch string nat nat
    \<comment> \<open>ValueError: test data for \<open>name\<close> expected \<open>field_count\<close> fields but instead found \<open>param_count\<close>\<close>
  | InvalidValue string
    \<comment> \<open>TypeError of \<open>assert_never\<close>: Invalid value\<close>
  | NoneHasNoAttribute string
    \<comment> \<open>AttributeError: attribute access on \<open>None\<close>\<close>

text \<open>The kinds of \<open>inspect.Parameter\<close>.\<close>

datatype param_kind =
  POSITIONAL_ONLY | POSITIONAL_OR_KEYWORD | VAR_POSITIONAL | KEYWORD_ONLY | VAR_KEYWORD

definition POSITIONAL_ARGS :: "param_kind list" where
  "POSITIONAL_ARGS = [POSITIONAL_ONLY, POSITIONAL_OR_KEYWORD]"

text \<open>
  A Python function as the engine sees it: its \<open>__name__\<close>, the kinds of the parameters
  of its signature in order, and what calling it with a list of positional arguments does
  (binding the arguments included).
\<close>

record ('v, 'e) Callable =
  func_name :: string
  parameters :: "param_kind list"
  call :: "'v list \<Rightarrow> 'v module \<Rightarrow> 'e exn option \<times> 'v module"

subsection \<open>Argument sources, scenarios, cases\<close>

datatype ExecArg =
    ModuleItem string  \<comment> \<open>\<open>item_name\<close>\<close>
  | Param nat          \<comment> \<open>a \<open>Param\<close> has no field; the number is \<open>id(self)\<close>\<close>

fun isinstance_Param :: "ExecArg \<Rightarrow> bool" where
  "isinstance_Param (Param i) = True"
| "isinstance_Param (ModuleItem n) = False"

text \<open>\<open>[id(a) for a in self.exec_args if isinstance(a, Param)]\<close>.\<close>

fun field_ids :: "ExecArg list \<Rightarrow> nat list" where
  "field_ids [] = []"
| "field_ids (Param i # rest) = i # field_ids rest"
| "field_ids (ModuleItem item_name # rest) = field_ids rest"

record ('v, 'e) TestScenario =
  wrapped_func :: "('v, 'e) Callable"
  exec_args :: "ExecArg list"

record ('v, 'e) TestCase =
  test_scenario :: "('v, 'e) TestScenario"
  params :: "nat \<rightharpoonup> 'v"

text \<open>\<open>TestScenario.create(*args)(func)\<close>.\<close>

definition create :: "ExecArg list \<Rightarrow> ('v, 'e) Callable \<Rightarrow> error + ('v, 'e) TestScenario" where
  "create args func =
     (if \<not> list_all (\<lambda>kind. kind \<in> set POSITIONAL_ARGS) (parameters func)
        then Inl (NotAllPositional (func_name func))
      else if length (parameters func) > length args
        then Inl (TooManyArguments (func_name func))
      else if length (parameters func) < length args
        then Inl (NotEnoughArguments (func_name func))
      else Inr \<lparr>wrapped_func = func, exec_args = args\<rparr>)"

text \<open>\<open>dict(zip(field_ids, params))\<close>: pairs are stored left to right, a later one wins.\<close>

definition dict_zip :: "nat list \<Rightarrow> 'v list \<Rightarrow> (nat \<rightharpoonup> 'v)" where
  "dict_zip ks vs = fold (\<lambda>(k, v) d. d(k \<mapsto> v)) (zip ks vs) Map.empty"

text \<open>\<open>TestScenario.data(*params)\<close>.\<close>

definition data :: "('v, 'e) TestScenario \<Rightarrow> 'v list \<Rightarrow> error + ('v, 'e) TestCase" where
  "data self ps =
     (let ids = field_ids (exec_args self);
          field_count = length ids;
          param_count = length ps
      in if param_count \<noteq> field_count
           then Inl (FieldCountMismatch (func_name (wrapped_func self)) field_count param_count)
         else Inr \<lparr>test_scenario = self, params = dict_zip ids ps\<rparr>)"

text \<open>\<open>ExecArg.get_value\<close> of the two subclasses.\<close>

fun get_value :: "ExecArg \<Rightarrow> ('v, 'e) TestCase \<Rightarrow> 'v module \<Rightarrow> 'e exn + 'v" where
  "get_value (ModuleItem item_name) test_data ns =
     (case ns item_name of None \<Rightarrow> Inl (AttributeError item_name) | Some v \<Rightarrow> Inr v)"
| "get_value (Param i) test_data ns =
     (case params test_data i of None \<Rightarrow> Inl (KeyError i) | Some v \<Rightarrow> Inr v)"

text \<open>
  The list comprehension of \<open>TestCase.execute\<close>: the sources are resolved in order and
  the first failure ends the resolution.
\<close>

fun resolve :: "ExecArg list \<Rightarrow> ('v, 'e) TestCase \<Rightarrow> 'v module \<Rightarrow> 'e exn + 'v list" where
  "resolve [] test_data ns = Inr []"
| "resolve (arg # args) test_data ns =
     (case get_value arg test_data ns of
        Inl e \<Rightarrow> Inl e
      | Inr v \<Rightarrow> (case resolve args test_data ns of
                    Inl e \<Rightarrow> Inl e
                  | Inr vs \<Rightarrow> Inr (v # vs)))"

subsection \<open>The run configuration and the console\<close>

text \<open>
  What the code prints. Texts are kept by what they say, not by their characters:
  \<open>GradingTheQuestion name\<close> is the line announcing a group (its timestamp is left out),
  \<open>CaseHeading n label\<close> is \<open>Case #n:\<close> followed by the label, and the four footers of a
  group are one constructor each.
\<close>

datatype 'e traceback = Traceback "'e exn" | BriefTraceback "'e exn"

datatype 'e renderable =
    Text string string  \<comment> \<open>text and style\<close>
  | CaseHeading nat "'e renderable"
  | TracebackView "'e traceback"
  | Group "'e renderable list"
  | Padding "'e renderable" "nat list"
  | EmptyTestCases
  | Congratulations
  | SkippingRemaining nat
  | SomeMistakeFound
  | GradingTheQuestion string

record 'e Console =
  quiet :: bool
  printed :: "'e renderable list"

definition console_print :: "'e Console \<Rightarrow> 'e renderable \<Rightarrow> 'e Console" where
  "console_print c x = (if quiet c then c else c\<lparr>printed := printed c @ [x]\<rparr>)"

record 'e ApplicationContext =
  force_grade_all :: bool
  always_zero_exit :: bool
  verbosity :: int
  console :: "'e Console"

definition show_stack_trace :: "'e ApplicationContext \<Rightarrow> bool" where
  "show_stack_trace ctx = (verbosity ctx \<ge> 1)"

subsection \<open>Executing a case\<close>

record ('v, 'e) TestCaseResult =
  parent :: "('v, 'e) TestCase"
  judgement :: string
  rich_traceback :: "'e traceback option"

definition TestCaseResult_is_accepted :: "('v, 'e) TestCaseResult \<Rightarrow> bool" where
  "TestCaseResult_is_accepted r = (judgement r = ''accepted'')"

text \<open>The \<open>except\<close> clause: the traceback class depends on the verbosity.\<close>

definition capture :: "'e ApplicationContext \<Rightarrow> 'e exn \<Rightarrow> 'e traceback" where
  "capture ctx e = (if show_stack_trace ctx then Traceback e else BriefTraceback e)"

text \<open>\<open>TestCase.execute\<close>, with the namespace it leaves.\<close>

definition TestCase_execute ::
  "('v, 'e) TestCase \<Rightarrow> 'e ApplicationContext \<Rightarrow> 'v module \<Rightarrow> ('v, 'e) TestCaseResult \<times> 'v module" where
  "TestCase_execute self ctx ns =
     (case resolve (exec_args (test_scenario self)) self ns of
        Inl e \<Rightarrow>
          (\<lparr>parent = self, judgement = ''mistake'', rich_traceback = Some (capture ctx e)\<rparr>, ns)
      | Inr args \<Rightarrow>
          (case call (wrapped_func (test_scenario self)) args ns of
             (Some e, ns') \<Rightarrow>
               (\<lparr>parent = self, judgement = ''mistake'', rich_traceback = Some (capture ctx e)\<rparr>, ns')
           | (None, ns') \<Rightarrow>
               (\<lparr>parent = self, judgement = ''accepted'', rich_traceback = None\<rparr>, ns')))"

definition do_skip :: "('v, 'e) TestCase \<Rightarrow> ('v, 'e) TestCaseResult" where
  "do_skip self = \<lparr>parent = self, judgement = ''skipped'', rich_traceback = None\<rparr>"

text \<open>\<open>TestCaseResult.rich_message\<close>; the last branch is \<open>assert_never\<close>, which raises.\<close>

definition TestCaseResult_rich_message ::
  "('v, 'e) TestCaseResult \<Rightarrow> nat \<Rightarrow> error + 'e renderable" where
  "TestCaseResult_rich_message self test_no =
     (case (if judgement self = ''accepted'' then Inr (Text ''Correct'' ''deep_sky_blue1'')
            else if judgement self = ''mistake''
              then Inr (Text '' MISTAKE FOUND '' ''bold black on red1'')
            else if judgement self = ''skipped'' then Inr (Text ''Skipped'' ''grey23'')
            else Inl (InvalidValue (judgement self))) of
        Inl e \<Rightarrow> Inl e
      | Inr label \<Rightarrow>
          (let heading = CaseHeading test_no label
           in case rich_traceback self of
                None \<Rightarrow> Inr heading
              | Some tb \<Rightarrow> Inr (Group [heading, Padding (TracebackView tb) [0, 4]])))"

subsection \<open>Groups\<close>

record ('v, 'e) TestGroup =
  name :: string
  score_weight :: int
  all_test_cases :: "('v, 'e) TestCase list"

text \<open>
  \<open>tc_results\<close> holds references to case results; \<open>skipped_testcases\<close> compares them
  with \<open>None\<close>, so the elements are options.
\<close>

record ('v, 'e) TestGroupResult =
  tg_parent :: "('v, 'e) TestGroup"
  is_accepted :: bool
  tc_results :: "('v, 'e) TestCaseResult option list"

text \<open>
  The loop of \<open>TestGroup.execute\<close>, from the current values of \<open>is_accepted\<close>,
  \<open>tc_results\<close> and the namespace, over the cases still to visit.
\<close>

fun group_loop ::
  "'e ApplicationContext \<Rightarrow> 'v module \<Rightarrow> bool \<Rightarrow> ('v, 'e) TestCaseResult option list \<Rightarrow>
   ('v, 'e) TestCase list \<Rightarrow> bool \<times> ('v, 'e) TestCaseResult option list \<times> 'v module" where
  "group_loop ctx ns accepted results [] = (accepted, results, ns)"
| "group_loop ctx ns accepted results (test_case # rest) =
     (if \<not> accepted \<and> \<not> force_grade_all ctx
        then group_loop ctx ns accepted (results @ [Some (do_skip test_case)]) rest
      else (case TestCase_execute test_case ctx ns of
              (result, ns') \<Rightarrow>
                group_loop ctx ns' (accepted \<and> TestCaseResult_is_accepted result)
                  (results @ [Some result]) rest))"

definition TestGroup_execute ::
  "('v, 'e) TestGroup \<Rightarrow> 'e ApplicationContext \<Rightarrow> 'v module \<Rightarrow> ('v, 'e) TestGroupResult \<times> 'v module" where
  "TestGroup_execute self ctx ns =
     (case group_loop ctx ns True [] (all_test_cases self) of
        (accepted, results, ns') \<Rightarrow>
          (\<lparr>tg_parent = self, is_accepted = accepted, tc_results = results\<rparr>, ns'))"

text \<open>\<open>sum(tc_result is None for tc_result in self.tc_results)\<close>.\<close>

definition skipped_testcases :: "('v, 'e) TestGroupResult \<Rightarrow> nat" where
  "skipped_testcases self = sum_list (map (\<lambda>tc_result. of_bool (tc_result = None)) (tc_results self))"

text \<open>\<open>self.is_accepted * self.parent.score_weight\<close>, a bool times an int.\<close>

definition score_earned :: "('v, 'e) TestGroupResult \<Rightarrow> int" where
  "score_earned self = of_bool (is_accepted self) * score_weight (tg_parent self)"

subsection \<open>The serialised report\<close>

text \<open>JSON-serialisable Python objects; a dict keeps its keys in insertion order.\<close>

datatype json =
  JStr string | JInt int | JBool bool | JList "json list" | JDict "(string \<times> json) list"

text \<open>\<open>[tc_result.judgement for tc_result in self.tc_results]\<close>.\<close>

fun judgements :: "('v, 'e) TestCaseResult option list \<Rightarrow> error + json list" where
  "judgements [] = Inr []"
| "judgements (None # rest) = Inl (NoneHasNoAttribute ''judgement'')"
| "judgements (Some tc_result # rest) =
     (case judgements rest of
        Inl e \<Rightarrow> Inl e
      | Inr js \<Rightarrow> Inr (JStr (judgement tc_result) # js))"

definition TestGroupResult_serialize :: "('v, 'e) TestGroupResult \<Rightarrow> error + (string \<times> json) list" where
  "TestGroupResult_serialize self =
     (case judgements (tc_results self) of
        Inl e \<Rightarrow> Inl e
      | Inr js \<Rightarrow>
          Inr [(''group_name'', JStr (name (tg_parent self))),
               (''score_weight'', JInt (score_weight (tg_parent self))),
               (''score_earned'', JInt (score_earned self)),
               (''is_accepted'', JBool (is_accepted self)),
               (''sub_results'', JList js)])"

text \<open>\<open>TestGroupResult.rich_message\<close>.\<close>

fun case_messages ::
  "nat \<Rightarrow> ('v, 'e) TestCaseResult option list \<Rightarrow> error + 'e renderable list" where
  "case_messages test_no [] = Inr []"
| "case_messages test_no (None # rest) = Inl (NoneHasNoAttribute ''rich_message'')"
| "case_messages test_no (Some tc_result # rest) =
     (case TestCaseResult_rich_message tc_result test_no of
        Inl e \<Rightarrow> Inl e
      | Inr m \<Rightarrow> (case case_messages (Suc test_no) rest of
                   Inl e \<Rightarrow> Inl e
                 | Inr ms \<Rightarrow> Inr (m # ms)))"

definition TestGroupResult_rich_message :: "('v, 'e) TestGroupResult \<Rightarrow> error + 'e renderable" where
  "TestGroupResult_rich_message self =
     (let rich_body = (if all_test_cases (tg_parent self) = [] then [EmptyTestCases] else [])
      in case case_messages 1 (tc_results self) of
           Inl e \<Rightarrow> Inl e
         | Inr ms \<Rightarrow>
             Inr (Padding
                    (Group (rich_body @ ms @
                       [if is_accepted self then Congratulations
                        else if skipped_testcases self > 0
                          then SkippingRemaining (skipped_testcases self)
                        else SomeMistakeFound]))
                    [0, 4, 1, 4]))"

subsection \<open>Suites\<close>

record ('v, 'e) TestSuite =
  test_groups :: "('v, 'e) TestGroup list"

record ('v, 'e) TestSuiteResult =
  tg_results :: "('v, 'e) TestGroupResult list"

text \<open>
  The loop of \<open>TestSuite.execute\<close>. It prints to the console of the context before and
  after each group; an exception of \<open>rich_message\<close> would leave the loop.
\<close>

fun suite_loop ::
  "'e ApplicationContext \<Rightarrow> 'v module \<Rightarrow> ('v, 'e) TestGroupResult list \<Rightarrow> ('v, 'e) TestGroup list \<Rightarrow>
   error + (('v, 'e) TestGroupResult list \<times> 'v module \<times> 'e ApplicationContext)" where
  "suite_loop ctx ns results [] = Inr (results, ns, ctx)"
| "suite_loop ctx ns results (test_group # rest) =
     (let ctx1 = ctx\<lparr>console := console_print (console ctx) (GradingTheQuestion (name test_group))\<rparr>
      in case TestGroup_execute test_group ctx1 ns of
           (result, ns') \<Rightarrow>
             (case TestGroupResult_rich_message result of
                Inl e \<Rightarrow> Inl e
              | Inr message \<Rightarrow>
                  suite_loop (ctx1\<lparr>console := console_print (console ctx1) message\<rparr>) ns'
                    (results @ [result]) rest))"

definition TestSuite_execute ::
  "('v, 'e) TestSuite \<Rightarrow> 'e ApplicationContext \<Rightarrow> 'v module \<Rightarrow>
   error + (('v, 'e) TestSuiteResult \<times> 'v module \<times> 'e ApplicationContext)" where
  "TestSuite_execute self ctx ns =
     (case suite_loop ctx ns [] (test_groups self) of
        Inl e \<Rightarrow> Inl e
      | Inr (results, ns', ctx') \<Rightarrow> Inr (\<lparr>tg_results = results\<rparr>, ns', ctx'))"

definition total_weight :: "('v, 'e) TestSuiteResult \<Rightarrow> int" where
  "total_weight self = sum_list (map (\<lambda>tg_result. score_weight (tg_parent tg_result)) (tg_results self))"

definition suite_score_earned :: "('v, 'e) TestSuiteResult \<Rightarrow> int" where
  "suite_score_earned self = sum_list (map score_earned (tg_results self))"

definition is_perfect :: "('v, 'e) TestSuiteResult \<Rightarrow> bool" where
  "is_perfect self = list_all is_accepted (tg_results self)"

fun serialize_groups :: "('v, 'e) TestGroupResult list \<Rightarrow> error + json list" where
  "serialize_groups [] = Inr []"
| "serialize_groups (tg_result # rest) =
     (case TestGroupResult_serialize tg_result of
        Inl e \<Rightarrow> Inl e
      | Inr d \<Rightarrow> (case serialize_groups rest of
                   Inl e \<Rightarrow> Inl e
                 | Inr ds \<Rightarrow> Inr (JDict d # ds)))"

definition TestSuiteResult_serialize :: "('v, 'e) TestSuiteResult \<Rightarrow> error + (string \<times> json) list" where
  "TestSuiteResult_serialize self =
     (case serialize_groups (tg_results self) of
        Inl e \<Rightarrow> Inl e
      | Inr ds \<Rightarrow>
          Inr [(''total_weight'', JInt (total_weight self)),
               (''score_earned'', JInt (suite_score_earned self)),
               (''test_groups'', JList ds)])"

subsection \<open>A small test bank\<close>

text \<open>
  Concrete scenarios, cases, groups and a suite, on integer values with exceptions named
  by strings. \<open>check_answer\<close> compares its two arguments and leaves the namespace alone;
  \<open>count_and_check\<close> does the same and counts its invocations in the namespace, as
  artifact code with a side effect would.
\<close>

definition check_answer :: "(int, string) Callable" where
  "check_answer =
     \<lparr>func_name = ''test_answer'',
      parameters = [POSITIONAL_OR_KEYWORD, POSITIONAL_OR_KEYWORD],
      call = (\<lambda>args ns. case args of
                [got, expected] \<Rightarrow>
                  (if got = expected then None else Some (Raised ''AssertionError''), ns)
              | _ \<Rightarrow> (Some (Raised ''TypeError''), ns))\<rparr>"

definition count_and_check :: "(int, string) Callable" where
  "count_and_check =
     \<lparr>func_name = ''test_counted'',
      parameters = [POSITIONAL_OR_KEYWORD, POSITIONAL_OR_KEYWORD],
      call = (\<lambda>args ns. case args of
                [got, expected] \<Rightarrow>
                  (if got = expected then None else Some (Raised ''AssertionError''),
                   ns(''calls'' \<mapsto> (case ns ''calls'' of None \<Rightarrow> 1 | Some n \<Rightarrow> n + 1)))
              | _ \<Rightarrow> (Some (Raised ''TypeError''), ns))\<rparr>"

definition answer_scenario :: "(int, string) TestScenario" where
  "answer_scenario = \<lparr>wrapped_func = check_answer, exec_args = [ModuleItem ''answer'', Param 7]\<rparr>"

definition counted_scenario :: "(int, string) TestScenario" where
  "counted_scenario = \<lparr>wrapped_func = count_and_check, exec_args = [ModuleItem ''answer'', Param 8]\<rparr>"

definition answer_case :: "int \<Rightarrow> (int, string) TestCase" where
  "answer_case expected = \<lparr>test_scenario = answer_scenario, params = [7 \<mapsto> expected]\<rparr>"

definition counted_case :: "int \<Rightarrow> (int, string) TestCase" where
  "counted_case expected = \<lparr>test_scenario = counted_scenario, params = [8 \<mapsto> expected]\<rparr>"

definition missing_case :: "(int, string) TestCase" where
  "missing_case =
     \<lparr>test_scenario = \<lparr>wrapped_func = check_answer, exec_args = [ModuleItem ''absent'', Param 7]\<rparr>,
      params = [7 \<mapsto> 42]\<rparr>"

definition artifact :: "int module" where
  "artifact = [''answer'' \<mapsto> 42]"

definition plain_ctx :: "string ApplicationContext" where
  "plain_ctx =
     \<lparr>force_grade_all = False, always_zero_exit = False, verbosity = 0,
      console = \<lparr>quiet = False, printed = []\<rparr>\<rparr>"

definition group_pass :: "(int, string) TestGroup" where
  "group_pass = \<lparr>name = ''first'', score_weight = 10, all_test_cases = [answer_case 42, answer_case 42]\<rparr>"

definition group_fail :: "(int, string) TestGroup" where
  "group_fail = \<lparr>name = ''second'', score_weight = 20, all_test_cases = [answer_case 41, answer_case 42]\<rparr>"

definition group_counted :: "(int, string) TestGroup" where
  "group_counted =
     \<lparr>name = ''counted'', score_weight = 10,
      all_test_cases = [counted_case 41, counted_case 42, counted_case 42]\<rparr>"

definition group_zero :: "(int, string) TestGroup" where
  "group_zero = \<lparr>name = ''zero'', score_weight = 0, all_test_cases = [answer_case 41]\<rparr>"

definition group_empty :: "(int, string) TestGroup" where
  "group_empty = \<lparr>name = ''empty'', score_weight = 5, all_test_cases = []\<rparr>"

definition two_groups :: "(int, string) TestSuite" where
  "two_groups = \<lparr>test_groups = [group_fail, group_pass]\<rparr>"

text \<open>The results of the two groups of \<open>two_groups\<close>, and what their run prints.\<close>

definition fail_result :: "(int, string) TestGroupResult" where
  "fail_result =
     \<lparr>tg_parent = group_fail, is_accepted = False,
      tc_results =
        [Some \<lparr>parent = answer_case 41, judgement = ''mistake'',
               rich_traceback = Some (BriefTraceback (Raised ''AssertionError''))\<rparr>,
         Some (do_skip (answer_case 42))]\<rparr>"

definition pass_result :: "(int, string) TestGroupResult" where
  "pass_result =
     \<lparr>tg_parent = group_pass, is_accepted = True,
      tc_results =
        [Some \<lparr>parent = answer_case 42, judgement = ''accepted'', rich_traceback = None\<rparr>,
         Some \<lparr>parent = answer_case 42, judgement = ''accepted'', rich_traceback = None\<rparr>]\<rparr>"

definition two_groups_printed :: "string renderable list" where
  "two_groups_printed =
     [GradingTheQuestion ''second'',
      Padding
        (Group
           [Group [CaseHeading 1 (Text '' MISTAKE FOUND '' ''bold black on red1''),
                   Padding (TracebackView (BriefTraceback (Raised ''AssertionError''))) [0, 4]],
            CaseHeading 2 (Text ''Skipped'' ''grey23''),
            SomeMistakeFound])
        [0, 4, 1, 4],
      GradingTheQuestion ''first'',
      Padding
        (Group
           [CaseHeading 1 (Text ''Correct'' ''deep_sky_blue1''),
            CaseHeading 2 (Text ''Correct'' ''deep_sky_blue1''),
            Congratulations])
        [0, 4, 1, 4]]"

section \<open>Properties\<close>

subsection \<open>The loop of a group\<close>

text \<open>The result list only grows at its end: the loop can be run from the empty list.\<close>

lemma group_loop_acc:
  "group_loop ctx ns a rs cs =
     (case group_loop ctx ns a [] cs of (a', rs', ns') \<Rightarrow> (a', rs @ rs', ns'))"
proof (induction cs arbitrary: ns a rs)
  case Nil
  show ?case by simp
next
  case (Cons c cs)
  have step: "group_loop ctx ns1 b (rs1 @ [x]) cs =
      (case group_loop ctx ns1 b [x] cs of (a', rs', ns') \<Rightarrow> (a', rs1 @ rs', ns'))"
    for ns1 b rs1 x
    using Cons.IH [of ns1 b "rs1 @ [x]"] Cons.IH [of ns1 b "[x]"]
    by (simp split: prod.splits)
  show ?case
  proof (cases "\<not> a \<and> \<not> force_grade_all ctx")
    case True
    then show ?thesis
      using step [of ns a rs "Some (do_skip c)"] by simp
  next
    case False
    obtain result ns1 where ex: "TestCase_execute c ctx ns = (result, ns1)"
      by (cases "TestCase_execute c ctx ns")
    have "group_loop ctx ns a rs (c # cs) =
        group_loop ctx ns1 (a \<and> TestCaseResult_is_accepted result) (rs @ [Some result]) cs"
      using False ex by auto
    moreover have "group_loop ctx ns a [] (c # cs) =
        group_loop ctx ns1 (a \<and> TestCaseResult_is_accepted result) [Some result] cs"
      using False ex by auto
    ultimately show ?thesis
      using step [of ns1 "a \<and> TestCaseResult_is_accepted result" rs "Some result"] by simp
  qed
qed

lemma group_loop_skipping:
  "\<not> force_grade_all ctx \<Longrightarrow>
   group_loop ctx ns False rs cs = (False, rs @ map (\<lambda>c. Some (do_skip c)) cs, ns)"
  by (induction cs arbitrary: rs) simp_all

lemma group_loop_append:
  "group_loop ctx ns a rs (xs @ ys) =
     (case group_loop ctx ns a rs xs of (a', rs', ns') \<Rightarrow> group_loop ctx ns' a' rs' ys)"
  by (induction xs arbitrary: ns a rs) (simp_all split: prod.splits)

lemma group_loop_length:
  "group_loop ctx ns a rs cs = (a', rs', ns') \<Longrightarrow> length rs' = length rs + length cs"
  by (induction cs arbitrary: ns a rs) (auto split: prod.splits if_splits)

lemma TestCase_execute_judgement:
  "TestCase_execute c ctx ns = (r, ns') \<Longrightarrow>
     parent r = c \<and>
     (judgement r = ''accepted'' \<and> rich_traceback r = None \<or>
      judgement r = ''mistake'' \<and> rich_traceback r \<noteq> None)"
  by (auto simp: TestCase_execute_def split: sum.splits prod.splits option.splits)


lemma group_loop_Cons_skip:
  assumes "\<not> a" and "\<not> force_grade_all ctx"
    and "group_loop ctx ns a [] cs = (a1, rs1, ns1)"
  shows "group_loop ctx ns a [] (c # cs) = (a1, Some (do_skip c) # rs1, ns1)"
proof -
  have "group_loop ctx ns a [] (c # cs) = group_loop ctx ns a [Some (do_skip c)] cs"
    using assms(1,2) by simp
  also have "\<dots> = (a1, [Some (do_skip c)] @ rs1, ns1)"
    using group_loop_acc [of ctx ns a "[Some (do_skip c)]" cs] assms(3) by simp
  finally show ?thesis by simp
qed

lemma group_loop_Cons_exec:
  assumes "a \<or> force_grade_all ctx"
    and "TestCase_execute c ctx ns = (result, ns0)"
    and "group_loop ctx ns0 (a \<and> TestCaseResult_is_accepted result) [] cs = (a1, rs1, ns1)"
  shows "group_loop ctx ns a [] (c # cs) = (a1, Some result # rs1, ns1)"
proof -
  have "group_loop ctx ns a [] (c # cs) =
      group_loop ctx ns0 (a \<and> TestCaseResult_is_accepted result) [Some result] cs"
    using assms(1,2) by auto
  also have "\<dots> = (a1, [Some result] @ rs1, ns1)"
    using group_loop_acc [of ctx ns0 "a \<and> TestCaseResult_is_accepted result" "[Some result]" cs]
      assms(3) by simp
  finally show ?thesis by simp
qed

lemma group_loop_flag:
  "group_loop ctx ns a [] cs = (a', rs', ns') \<Longrightarrow>
     a' = (a \<and> (\<forall>x \<in> set rs'. map_option judgement x = Some ''accepted''))"
proof (induction cs arbitrary: ns a a' rs' ns')
  case Nil
  then show ?case by simp
next
  case (Cons c cs)
  show ?case
  proof (cases "\<not> a \<and> \<not> force_grade_all ctx")
    case True
    obtain a1 rs1 ns1 where rest: "group_loop ctx ns a [] cs = (a1, rs1, ns1)"
      by (cases "group_loop ctx ns a [] cs")
    from group_loop_Cons_skip [OF _ _ rest, of c] True Cons.prems
    have "a' = a1" "rs' = Some (do_skip c) # rs1" by simp_all
    with Cons.IH [OF rest] True show ?thesis by simp
  next
    case False
    then have run: "a \<or> force_grade_all ctx" by blast
    obtain result ns0 where ex: "TestCase_execute c ctx ns = (result, ns0)"
      by (cases "TestCase_execute c ctx ns")
    obtain a1 rs1 ns1 where rest:
      "group_loop ctx ns0 (a \<and> TestCaseResult_is_accepted result) [] cs = (a1, rs1, ns1)"
      by (cases "group_loop ctx ns0 (a \<and> TestCaseResult_is_accepted result) [] cs")
    from group_loop_Cons_exec [OF run ex rest] Cons.prems
    have "a' = a1" "rs' = Some result # rs1" by simp_all
    with Cons.IH [OF rest] show ?thesis
      by (auto simp: TestCaseResult_is_accepted_def)
  qed
qed

lemma do_skip_simps:
  "parent (do_skip c) = c" "judgement (do_skip c) = ''skipped''" "rich_traceback (do_skip c) = None"
  by (simp_all add: do_skip_def)

text \<open>Every entry of the result list is a result of the case at its position.\<close>

lemma group_loop_results:
  "group_loop ctx ns a [] cs = (a', rs', ns') \<Longrightarrow>
     list_all2 (\<lambda>x c. \<exists>r. x = Some r \<and> parent r = c \<and>
        (judgement r = ''accepted'' \<and> rich_traceback r = None \<or>
         judgement r = ''mistake'' \<and> rich_traceback r \<noteq> None \<or>
         judgement r = ''skipped'' \<and> rich_traceback r = None)) rs' cs"
proof (induction cs arbitrary: ns a a' rs' ns')
  case Nil
  then show ?case by simp
next
  case (Cons c cs)
  show ?case
  proof (cases "\<not> a \<and> \<not> force_grade_all ctx")
    case True
    obtain a1 rs1 ns1 where rest: "group_loop ctx ns a [] cs = (a1, rs1, ns1)"
      by (cases "group_loop ctx ns a [] cs")
    from group_loop_Cons_skip [OF _ _ rest, of c] True Cons.prems
    have "rs' = Some (do_skip c) # rs1" by simp
    with Cons.IH [OF rest] show ?thesis by (simp add: do_skip_simps)
  next
    case False
    then have run: "a \<or> force_grade_all ctx" by blast
    obtain result ns0 where ex: "TestCase_execute c ctx ns = (result, ns0)"
      by (cases "TestCase_execute c ctx ns")
    obtain a1 rs1 ns1 where rest:
      "group_loop ctx ns0 (a \<and> TestCaseResult_is_accepted result) [] cs = (a1, rs1, ns1)"
      by (cases "group_loop ctx ns0 (a \<and> TestCaseResult_is_accepted result) [] cs")
    from group_loop_Cons_exec [OF run ex rest] Cons.prems
    have "rs' = Some result # rs1" by simp
    with Cons.IH [OF rest] TestCase_execute_judgement [OF ex] show ?thesis by auto
  qed
qed

lemma TestGroup_execute_loop:
  "TestGroup_execute g ctx ns = (r, ns') \<Longrightarrow>
     tg_parent r = g \<and> group_loop ctx ns True [] (all_test_cases g) = (is_accepted r, tc_results r, ns')"
  by (auto simp: TestGroup_execute_def split: prod.splits)

text \<open>What \<open>TestGroup.execute\<close> returns.\<close>

lemma TestGroup_execute_results:
  assumes "TestGroup_execute g ctx ns = (r, ns')"
  shows "list_all2 (\<lambda>x c. \<exists>tc. x = Some tc \<and> parent tc = c \<and>
        (judgement tc = ''accepted'' \<and> rich_traceback tc = None \<or>
         judgement tc = ''mistake'' \<and> rich_traceback tc \<noteq> None \<or>
         judgement tc = ''skipped'' \<and> rich_traceback tc = None)) (tc_results r) (all_test_cases g)"
  using TestGroup_execute_loop [OF assms] group_loop_results by blast

lemma TestGroup_execute_accepted:
  assumes "TestGroup_execute g ctx ns = (r, ns')"
  shows "is_accepted r = (\<forall>x \<in> set (tc_results r). map_option judgement x = Some ''accepted'')"
  using TestGroup_execute_loop [OF assms] group_loop_flag [of ctx ns True "all_test_cases g"]
  by simp

lemma TestGroup_execute_Some:
  assumes "TestGroup_execute g ctx ns = (r, ns')" and "i < length (tc_results r)"
  shows "\<exists>tc. tc_results r ! i = Some tc \<and> parent tc = all_test_cases g ! i \<and>
      judgement tc \<in> {''accepted'', ''mistake'', ''skipped''}"
proof -
  note res = TestGroup_execute_results [OF assms(1)]
  from list_all2_nthD [OF res assms(2)] show ?thesis by blast
qed

lemma TestGroup_execute_not_None:
  assumes "TestGroup_execute g ctx ns = (r, ns')" and "x \<in> set (tc_results r)"
  shows "x \<noteq> None"
proof -
  from assms(2) obtain i where i: "i < length (tc_results r)" and x: "x = tc_results r ! i"
    by (auto simp: in_set_conv_nth)
  from TestGroup_execute_Some [OF assms(1) i] x show ?thesis by auto
qed

subsection \<open>Runs of the small test bank\<close>

lemmas bank_defs =
  check_answer_def answer_scenario_def answer_case_def artifact_def plain_ctx_def
  group_pass_def group_fail_def

lemma counted_run:
  "TestGroup_execute group_counted plain_ctx artifact =
     (\<lparr>tg_parent = group_counted, is_accepted = False,
       tc_results =
         [Some \<lparr>parent = counted_case 41, judgement = ''mistake'',
                rich_traceback = Some (BriefTraceback (Raised ''AssertionError''))\<rparr>,
          Some (do_skip (counted_case 42)),
          Some (do_skip (counted_case 42))]\<rparr>,
      artifact(''calls'' \<mapsto> 1))"
  by (simp add: TestGroup_execute_def TestCase_execute_def TestCaseResult_is_accepted_def
      capture_def show_stack_trace_def count_and_check_def counted_scenario_def
      counted_case_def group_counted_def artifact_def plain_ctx_def)

lemma pass_run:
  "TestGroup_execute group_pass ctx artifact =
     (\<lparr>tg_parent = group_pass, is_accepted = True,
       tc_results =
         [Some \<lparr>parent = answer_case 42, judgement = ''accepted'', rich_traceback = None\<rparr>,
          Some \<lparr>parent = answer_case 42, judgement = ''accepted'', rich_traceback = None\<rparr>]\<rparr>,
      artifact)"
  by (simp add: TestGroup_execute_def TestCase_execute_def TestCaseResult_is_accepted_def
      bank_defs)

lemma fail_run:
  "TestGroup_execute group_fail plain_ctx artifact =
     (\<lparr>tg_parent = group_fail, is_accepted = False,
       tc_results =
         [Some \<lparr>parent = answer_case 41, judgement = ''mistake'',
                rich_traceback = Some (BriefTraceback (Raised ''AssertionError''))\<rparr>,
          Some (do_skip (answer_case 42))]\<rparr>,
      artifact)"
  by (simp add: TestGroup_execute_def TestCase_execute_def TestCaseResult_is_accepted_def
      capture_def show_stack_trace_def bank_defs)

subsection \<open>Empty groups\<close>

text \<open>
  C10. A group without test cases is accepted by \<open>TestGroup.execute\<close>: the result has
  \<open>is_accepted\<close> true and an empty result list, the namespace is untouched, and
  \<open>score_earned\<close> is the whole \<open>score_weight\<close> of the group.
\<close>

theorem empty_group_accepted:
  assumes "all_test_cases g = []"
  shows "TestGroup_execute g ctx ns = (\<lparr>tg_parent = g, is_accepted = True, tc_results = []\<rparr>, ns)
       \<and> score_earned (fst (TestGroup_execute g ctx ns)) = score_weight g"
  using assms by (simp add: TestGroup_execute_def score_earned_def)

theorem empty_group_accepted_witness:
  "all_test_cases group_empty = []
   \<and> TestGroup_execute group_empty plain_ctx artifact =
       (\<lparr>tg_parent = group_empty, is_accepted = True, tc_results = []\<rparr>, artifact)
   \<and> score_earned (fst (TestGroup_execute group_empty plain_ctx artifact)) = 5"
proof -
  have h: "all_test_cases group_empty = []" by (simp add: group_empty_def)
  have w: "score_weight group_empty = 5" by (simp add: group_empty_def)
  note run = empty_group_accepted [OF h, of plain_ctx artifact]
  from run have r1: "TestGroup_execute group_empty plain_ctx artifact =
      (\<lparr>tg_parent = group_empty, is_accepted = True, tc_results = []\<rparr>, artifact)"
    by (rule conjunct1)
  from run have r2: "score_earned (fst (TestGroup_execute group_empty plain_ctx artifact)) = 5"
    unfolding w by (rule conjunct2)
  show ?thesis using h r1 r2 by blast
qed

subsection \<open>The skip cascade\<close>

text \<open>
  C1. When \<open>force_grade_all\<close> is false and \<open>TestGroup.execute\<close> returns a result list
  in which some entry before index \<open>i\<close> has judgement \<open>mistake\<close>, the entry at index \<open>i\<close> is
  \<open>do_skip\<close> of the case declared at \<open>i\<close>, whose judgement is \<open>skipped\<close>. No routine runs
  from index \<open>i\<close> on: the whole run is the run of the first \<open>i\<close> cases, with the same final
  namespace, followed by one \<open>do_skip\<close> per remaining case, and \<open>do_skip\<close> builds its
  result from the case alone.
\<close>

theorem skip_cascade:
  assumes nf: "\<not> force_grade_all ctx"
    and ex: "TestGroup_execute g ctx ns = (r, ns')"
    and ji: "j < i" and il: "i < length (tc_results r)"
    and rj: "tc_results r ! j = Some rj" and mj: "judgement rj = ''mistake''"
  shows "tc_results r ! i = Some (do_skip (all_test_cases g ! i))
       \<and> judgement (do_skip (all_test_cases g ! i)) = ''skipped''
       \<and> (\<exists>r0. TestGroup_execute (g\<lparr>all_test_cases := take i (all_test_cases g)\<rparr>) ctx ns = (r0, ns')
              \<and> tc_results r = tc_results r0 @ map (\<lambda>c. Some (do_skip c)) (drop i (all_test_cases g)))"
proof -
  let ?cs = "all_test_cases g"
  let ?skips = "map (\<lambda>c. Some (do_skip c)) (drop i ?cs)"
  from TestGroup_execute_loop [OF ex]
  have loop: "group_loop ctx ns True [] ?cs = (is_accepted r, tc_results r, ns')" by simp
  have len: "length (tc_results r) = length ?cs"
    using group_loop_length [OF loop] by simp
  obtain a0 rs0 ns0 where pre: "group_loop ctx ns True [] (take i ?cs) = (a0, rs0, ns0)"
    by (cases "group_loop ctx ns True [] (take i ?cs)")
  have len0: "length rs0 = i"
    using group_loop_length [OF pre] il len by simp
  have "group_loop ctx ns True [] (take i ?cs @ drop i ?cs) = group_loop ctx ns0 a0 rs0 (drop i ?cs)"
    using pre by (simp only: group_loop_append prod.case)
  with loop have full: "group_loop ctx ns0 a0 rs0 (drop i ?cs) = (is_accepted r, tc_results r, ns')"
    by simp
  obtain a1 rs1 ns1 where suf: "group_loop ctx ns0 a0 [] (drop i ?cs) = (a1, rs1, ns1)"
    by (cases "group_loop ctx ns0 a0 [] (drop i ?cs)")
  from group_loop_acc [of ctx ns0 a0 rs0 "drop i ?cs"] full suf
  have "tc_results r = rs0 @ rs1" by simp
  with rj ji len0 have "rs0 ! j = Some rj" by (simp add: nth_append)
  with ji len0 have "Some rj \<in> set rs0" by (metis nth_mem)
  with group_loop_flag [OF pre] mj have "\<not> a0" by auto
  with group_loop_skipping [OF nf, of ns0 rs0 "drop i ?cs"] full
  have res: "tc_results r = rs0 @ ?skips" and ns: "ns' = ns0" by simp_all
  have "i < length ?cs" using il len by simp
  then have "?skips ! 0 = Some (do_skip (?cs ! i))" by simp
  with res len0 have at_i: "tc_results r ! i = Some (do_skip (?cs ! i))"
    by (simp add: nth_append)
  have "TestGroup_execute (g\<lparr>all_test_cases := take i ?cs\<rparr>) ctx ns =
      (\<lparr>tg_parent = g\<lparr>all_test_cases := take i ?cs\<rparr>, is_accepted = a0, tc_results = rs0\<rparr>, ns')"
    using pre ns by (simp add: TestGroup_execute_def)
  with res at_i show ?thesis by (simp add: do_skip_simps)
qed

theorem skip_cascade_witness:
  "\<not> force_grade_all plain_ctx
   \<and> map (map_option judgement) (tc_results (fst (TestGroup_execute group_counted plain_ctx artifact)))
       = [Some ''mistake'', Some ''skipped'', Some ''skipped'']
   \<and> tc_results (fst (TestGroup_execute group_counted plain_ctx artifact)) ! 2
       = Some (do_skip (counted_case 42))
   \<and> snd (TestGroup_execute group_counted plain_ctx artifact) ''calls'' = Some 1"
proof -
  let ?r = "fst (TestGroup_execute group_counted plain_ctx artifact)"
  let ?m = "\<lparr>parent = counted_case 41, judgement = ''mistake'',
              rich_traceback = Some (BriefTraceback (Raised ''AssertionError''))\<rparr>"
  have h1: "\<not> force_grade_all plain_ctx" by (simp add: plain_ctx_def)
  have h2: "TestGroup_execute group_counted plain_ctx artifact = (?r, artifact(''calls'' \<mapsto> 1))"
    by (simp add: counted_run)
  have h3: "(0::nat) < 2" by simp
  have h4: "2 < length (tc_results ?r)" by (simp add: counted_run)
  have h5: "tc_results ?r ! 0 = Some ?m" by (simp add: counted_run)
  have h6: "judgement ?m = ''mistake''" by simp
  have c: "all_test_cases group_counted ! 2 = counted_case 42" by (simp add: group_counted_def)
  from skip_cascade [OF h1 h2 h3 h4 h5 h6]
  have "tc_results ?r ! 2 = Some (do_skip (counted_case 42))" unfolding c by (rule conjunct1)
  moreover have "map (map_option judgement) (tc_results ?r) = [Some ''mistake'', Some ''skipped'', Some ''skipped'']"
    by (simp add: counted_run do_skip_simps)
  moreover have "snd (TestGroup_execute group_counted plain_ctx artifact) ''calls'' = Some 1"
    by (simp add: counted_run)
  ultimately show ?thesis using h1 by blast
qed

subsection \<open>Scoring of a group\<close>

text \<open>
  C2, as amended. For a result of \<open>TestGroup.execute\<close>, \<open>score_earned\<close> is 0 or the
  \<open>score_weight\<close> of the group: it is the weight when every case result has judgement
  \<open>accepted\<close> and 0 otherwise. So for a group whose weight is not 0 it equals the weight
  exactly when every case result is \<open>accepted\<close>.
\<close>

theorem score_all_or_nothing:
  assumes "TestGroup_execute g ctx ns = (r, ns')"
  shows "(score_earned r = 0 \<or> score_earned r = score_weight g)
       \<and> score_earned r =
           (if \<forall>x \<in> set (tc_results r). map_option judgement x = Some ''accepted''
            then score_weight g else 0)
       \<and> (score_weight g \<noteq> 0 \<longrightarrow>
            (score_earned r = score_weight g \<longleftrightarrow>
             (\<forall>x \<in> set (tc_results r). map_option judgement x = Some ''accepted'')))"
proof -
  have p: "tg_parent r = g" using TestGroup_execute_loop [OF assms] by simp
  have a: "is_accepted r = (\<forall>x \<in> set (tc_results r). map_option judgement x = Some ''accepted'')"
    by (rule TestGroup_execute_accepted [OF assms])
  show ?thesis
  proof (cases "is_accepted r")
    case True
    then have "score_earned r = score_weight g" by (simp add: score_earned_def p)
    with True a show ?thesis by simp
  next
    case False
    then have "score_earned r = 0" by (simp add: score_earned_def)
    with False a show ?thesis by auto
  qed
qed

lemma zero_run:
  "TestGroup_execute group_zero plain_ctx artifact =
     (\<lparr>tg_parent = group_zero, is_accepted = False,
       tc_results =
         [Some \<lparr>parent = answer_case 41, judgement = ''mistake'',
                rich_traceback = Some (BriefTraceback (Raised ''AssertionError''))\<rparr>]\<rparr>,
      artifact)"
  by (simp add: TestGroup_execute_def TestCase_execute_def TestCaseResult_is_accepted_def
      capture_def show_stack_trace_def bank_defs group_zero_def)

theorem score_all_or_nothing_witness:
  "score_weight group_pass \<noteq> 0
   \<and> map (map_option judgement) (tc_results (fst (TestGroup_execute group_pass plain_ctx artifact)))
       = [Some ''accepted'', Some ''accepted'']
   \<and> score_earned (fst (TestGroup_execute group_pass plain_ctx artifact)) = 10
   \<and> map (map_option judgement) (tc_results (fst (TestGroup_execute group_fail plain_ctx artifact)))
       = [Some ''mistake'', Some ''skipped'']
   \<and> score_earned (fst (TestGroup_execute group_fail plain_ctx artifact)) = 0"
proof -
  let ?p = "fst (TestGroup_execute group_pass plain_ctx artifact)"
  let ?f = "fst (TestGroup_execute group_fail plain_ctx artifact)"
  have hp: "TestGroup_execute group_pass plain_ctx artifact = (?p, artifact)"
    by (simp add: pass_run)
  have hf: "TestGroup_execute group_fail plain_ctx artifact = (?f, artifact)"
    by (simp add: fail_run)
  have jp: "map (map_option judgement) (tc_results ?p) = [Some ''accepted'', Some ''accepted'']"
    by (simp add: pass_run)
  have jf: "map (map_option judgement) (tc_results ?f) = [Some ''mistake'', Some ''skipped'']"
    by (simp add: fail_run do_skip_simps)
  have wp: "score_weight group_pass = 10" by (simp add: group_pass_def)
  have ap: "\<forall>x \<in> set (tc_results ?p). map_option judgement x = Some ''accepted''"
    by (simp add: pass_run)
  have af: "\<not> (\<forall>x \<in> set (tc_results ?f). map_option judgement x = Some ''accepted'')"
    by (simp add: fail_run)
  from score_all_or_nothing [OF hp]
  have "score_earned ?p =
      (if \<forall>x \<in> set (tc_results ?p). map_option judgement x = Some ''accepted''
       then score_weight group_pass else 0)" by blast
  with ap wp have sp: "score_earned ?p = 10" by presburger
  from score_all_or_nothing [OF hf]
  have "score_earned ?f =
      (if \<forall>x \<in> set (tc_results ?f). map_option judgement x = Some ''accepted''
       then score_weight group_fail else 0)" by blast
  with af have sf: "score_earned ?f = 0" by presburger
  from wp have "score_weight group_pass \<noteq> 0" by simp
  with jp jf sp sf show ?thesis by blast
qed

text \<open>
  With weight 0 the claimed equivalence fails: the group \<open>group_zero\<close> has one case, which
  is a mistake, and its \<open>score_earned\<close> equals its \<open>score_weight\<close>.
\<close>

theorem score_zero_weight_counterexample:
  "score_earned (fst (TestGroup_execute group_zero plain_ctx artifact)) = score_weight group_zero
   \<and> map (map_option judgement) (tc_results (fst (TestGroup_execute group_zero plain_ctx artifact)))
       = [Some ''mistake'']"
proof -
  have "score_earned (fst (TestGroup_execute group_zero plain_ctx artifact)) = 0"
    by (simp add: zero_run score_earned_def)
  moreover have "score_weight group_zero = 0" by (simp add: group_zero_def)
  moreover have "map (map_option judgement)
      (tc_results (fst (TestGroup_execute group_zero plain_ctx artifact))) = [Some ''mistake'']"
    by (simp add: zero_run)
  ultimately show ?thesis by simp
qed

subsection \<open>Executing and skipping one case\<close>

text \<open>
  C4. \<open>TestCase.execute\<close> returns judgement \<open>accepted\<close> with no detail when the argument
  sources resolve and the routine raises nothing. It returns judgement \<open>mistake\<close> with
  the captured exception as detail when resolution raises or the routine raises,
  whatever the exception is. \<open>do_skip\<close> is the result with judgement \<open>skipped\<close> and no
  detail, built from the case alone. A result of \<open>execute\<close> carries a detail exactly
  when its judgement is \<open>mistake\<close>.
\<close>

theorem case_outcomes:
  "(resolve (exec_args (test_scenario c)) c ns = Inr args \<and>
      call (wrapped_func (test_scenario c)) args ns = (None, ns') \<longrightarrow>
      TestCase_execute c ctx ns =
        (\<lparr>parent = c, judgement = ''accepted'', rich_traceback = None\<rparr>, ns'))
   \<and> (resolve (exec_args (test_scenario c)) c ns = Inl e \<longrightarrow>
      TestCase_execute c ctx ns =
        (\<lparr>parent = c, judgement = ''mistake'', rich_traceback = Some (capture ctx e)\<rparr>, ns))
   \<and> (resolve (exec_args (test_scenario c)) c ns = Inr args \<and>
      call (wrapped_func (test_scenario c)) args ns = (Some e, ns') \<longrightarrow>
      TestCase_execute c ctx ns =
        (\<lparr>parent = c, judgement = ''mistake'', rich_traceback = Some (capture ctx e)\<rparr>, ns'))
   \<and> (capture ctx e = Traceback e \<or> capture ctx e = BriefTraceback e)
   \<and> do_skip c = \<lparr>parent = c, judgement = ''skipped'', rich_traceback = None\<rparr>
   \<and> (rich_traceback (fst (TestCase_execute c ctx ns)) \<noteq> None \<longleftrightarrow>
        judgement (fst (TestCase_execute c ctx ns)) = ''mistake'')
   \<and> (judgement (fst (TestCase_execute c ctx ns)) = ''accepted'' \<or>
        judgement (fst (TestCase_execute c ctx ns)) = ''mistake'')"
proof -
  obtain r ns2 where ex: "TestCase_execute c ctx ns = (r, ns2)"
    by (cases "TestCase_execute c ctx ns")
  have "capture ctx e = Traceback e \<or> capture ctx e = BriefTraceback e"
    by (simp add: capture_def)
  moreover have "do_skip c = \<lparr>parent = c, judgement = ''skipped'', rich_traceback = None\<rparr>"
    by (simp add: do_skip_def)
  moreover from TestCase_execute_judgement [OF ex] ex
  have "(rich_traceback (fst (TestCase_execute c ctx ns)) \<noteq> None \<longleftrightarrow>
        judgement (fst (TestCase_execute c ctx ns)) = ''mistake'')
      \<and> (judgement (fst (TestCase_execute c ctx ns)) = ''accepted'' \<or>
        judgement (fst (TestCase_execute c ctx ns)) = ''mistake'')"
    by auto
  ultimately show ?thesis
    by (simp add: TestCase_execute_def)
qed

theorem case_outcomes_witness:
  "TestCase_execute (answer_case 42) plain_ctx artifact =
     (\<lparr>parent = answer_case 42, judgement = ''accepted'', rich_traceback = None\<rparr>, artifact)
   \<and> TestCase_execute (answer_case 41) plain_ctx artifact =
     (\<lparr>parent = answer_case 41, judgement = ''mistake'',
       rich_traceback = Some (capture plain_ctx (Raised ''AssertionError''))\<rparr>, artifact)
   \<and> TestCase_execute missing_case plain_ctx artifact =
     (\<lparr>parent = missing_case, judgement = ''mistake'',
       rich_traceback = Some (capture plain_ctx (AttributeError ''absent''))\<rparr>, artifact)"
proof -
  have r1: "resolve (exec_args (test_scenario (answer_case 42))) (answer_case 42) artifact = Inr [42, 42]"
    by (simp add: bank_defs)
  have c1: "call (wrapped_func (test_scenario (answer_case 42))) [42, 42] artifact = (None, artifact)"
    by (simp add: bank_defs)
  have r2: "resolve (exec_args (test_scenario (answer_case 41))) (answer_case 41) artifact = Inr [42, 41]"
    by (simp add: bank_defs)
  have c2: "call (wrapped_func (test_scenario (answer_case 41))) [42, 41] artifact =
      (Some (Raised ''AssertionError''), artifact)"
    by (simp add: bank_defs)
  have r3: "resolve (exec_args (test_scenario missing_case)) missing_case artifact =
      Inl (AttributeError ''absent'')"
    by (simp add: missing_case_def check_answer_def artifact_def)
  from case_outcomes [where c = "answer_case 42" and ns = artifact and args = "[42, 42]" and ns' = artifact and ctx = plain_ctx] r1 c1
  have "TestCase_execute (answer_case 42) plain_ctx artifact =
     (\<lparr>parent = answer_case 42, judgement = ''accepted'', rich_traceback = None\<rparr>, artifact)"
    by blast
  moreover from case_outcomes [where c = "answer_case 41" and ns = artifact and args = "[42, 41]" and ns' = artifact
      and ctx = plain_ctx and e = "Raised ''AssertionError''"] r2 c2
  have "TestCase_execute (answer_case 41) plain_ctx artifact =
     (\<lparr>parent = answer_case 41, judgement = ''mistake'',
       rich_traceback = Some (capture plain_ctx (Raised ''AssertionError''))\<rparr>, artifact)"
    by blast
  moreover from case_outcomes [where c = missing_case and ns = artifact and ctx = plain_ctx
      and e = "AttributeError ''absent''"] r3
  have "TestCase_execute missing_case plain_ctx artifact =
     (\<lparr>parent = missing_case, judgement = ''mistake'',
       rich_traceback = Some (capture plain_ctx (AttributeError ''absent''))\<rparr>, artifact)"
    by blast
  ultimately show ?thesis by blast
qed

subsection \<open>Constructing scenarios and cases\<close>

lemma length_field_ids: "length (field_ids args) = length (filter isinstance_Param args)"
  by (induction args rule: field_ids.induct) simp_all

text \<open>
  C5. \<open>TestScenario.create\<close> returns the scenario when every parameter of the routine is
  positional and their number is the number of argument sources; otherwise it raises: for
  a parameter that is not positional, for too many parameters, or for too few.
  \<open>TestScenario.data\<close> returns the case when the number of values is the number of
  \<open>Param\<close> sources of the scenario, and raises otherwise.
\<close>

theorem construction_arity:
  "(list_all (\<lambda>kind. kind \<in> set POSITIONAL_ARGS) (parameters func) \<and>
      length (filter (\<lambda>kind. kind \<in> set POSITIONAL_ARGS) (parameters func)) = length args \<longrightarrow>
      create args func = Inr \<lparr>wrapped_func = func, exec_args = args\<rparr>)
   \<and> (\<not> list_all (\<lambda>kind. kind \<in> set POSITIONAL_ARGS) (parameters func) \<longrightarrow>
      create args func = Inl (NotAllPositional (func_name func)))
   \<and> (length (filter (\<lambda>kind. kind \<in> set POSITIONAL_ARGS) (parameters func)) \<noteq> length args \<longrightarrow>
      (\<exists>e. create args func = Inl e))
   \<and> (length ps = length (filter isinstance_Param (exec_args s)) \<longrightarrow>
      data s ps =
        Inr \<lparr>test_scenario = s,
             params = dict_zip (field_ids (exec_args s)) ps\<rparr>)
   \<and> (length ps \<noteq> length (filter isinstance_Param (exec_args s)) \<longrightarrow>
      data s ps =
        Inl (FieldCountMismatch (func_name (wrapped_func s))
               (length (filter isinstance_Param (exec_args s))) (length ps)))"
proof -
  let ?pos = "\<lambda>kind. kind \<in> set POSITIONAL_ARGS"
  have all: "filter ?pos (parameters func) = parameters func" if "list_all ?pos (parameters func)"
    using that by (simp add: list_all_iff)
  have c1: "create args func = Inr \<lparr>wrapped_func = func, exec_args = args\<rparr>"
    if "list_all ?pos (parameters func)" "length (filter ?pos (parameters func)) = length args"
    using that all by (simp add: create_def)
  have c2: "create args func = Inl (NotAllPositional (func_name func))"
    if "\<not> list_all ?pos (parameters func)"
    using that by (simp add: create_def)
  have c3: "\<exists>e. create args func = Inl e"
    if ne: "length (filter ?pos (parameters func)) \<noteq> length args"
  proof (cases "list_all ?pos (parameters func)")
    case True
    with ne all have "length (parameters func) \<noteq> length args" by simp
    with True show ?thesis by (auto simp: create_def)
  next
    case False
    with c2 show ?thesis by blast
  qed
  have d: "data s ps = (if length ps \<noteq> length (filter isinstance_Param (exec_args s))
      then Inl (FieldCountMismatch (func_name (wrapped_func s))
               (length (filter isinstance_Param (exec_args s))) (length ps))
      else Inr \<lparr>test_scenario = s, params = dict_zip (field_ids (exec_args s)) ps\<rparr>)"
    by (simp add: data_def Let_def length_field_ids)
  show ?thesis using c1 c2 c3 d by presburger
qed

theorem construction_arity_witness:
  "create [ModuleItem ''answer'', Param 7] check_answer = Inr answer_scenario
   \<and> (\<exists>e. create [ModuleItem ''answer''] check_answer = Inl e)
   \<and> (\<exists>e. create [ModuleItem ''answer'', Param 7, Param 9] check_answer = Inl e)
   \<and> data answer_scenario [42] = Inr (answer_case 42)
   \<and> data answer_scenario [42, 43, 44] = Inl (FieldCountMismatch ''test_answer'' 1 3)"
proof -
  let ?pos = "\<lambda>kind. kind \<in> set POSITIONAL_ARGS"
  let ?two = "[ModuleItem ''answer'', Param 7]"
  let ?one = "[ModuleItem ''answer'']"
  let ?three = "[ModuleItem ''answer'', Param 7, Param 9]"
  have p: "list_all ?pos (parameters check_answer)"
    by (simp add: check_answer_def POSITIONAL_ARGS_def)
  have n: "length (filter ?pos (parameters check_answer)) = 2"
    by (simp add: check_answer_def POSITIONAL_ARGS_def)
  have n2: "length (filter ?pos (parameters check_answer)) = length ?two"
    and n1: "length (filter ?pos (parameters check_answer)) \<noteq> length ?one"
    and n3: "length (filter ?pos (parameters check_answer)) \<noteq> length ?three"
    using n by simp_all
  have f: "filter isinstance_Param (exec_args answer_scenario) = [Param 7]"
    by (simp add: answer_scenario_def)
  have ids: "field_ids (exec_args answer_scenario) = [7]"
    by (simp add: answer_scenario_def)
  have l1: "length [42::int] = length (filter isinstance_Param (exec_args answer_scenario))"
    and l3: "length [42::int, 43, 44] \<noteq> length (filter isinstance_Param (exec_args answer_scenario))"
    using f by simp_all
  have nm: "func_name (wrapped_func answer_scenario) = ''test_answer''"
    by (simp add: answer_scenario_def check_answer_def)
  have dz: "dict_zip [7] [42::int] = [7 \<mapsto> 42]"
    by (simp add: dict_zip_def)
  from construction_arity [where func = check_answer and args = ?two and s = answer_scenario and ps = "[42]"] p n2
  have "create ?two check_answer = Inr \<lparr>wrapped_func = check_answer, exec_args = ?two\<rparr>"
    by blast
  then have w1: "create ?two check_answer = Inr answer_scenario"
    by (simp add: answer_scenario_def)
  from construction_arity [where func = check_answer and args = ?one and s = answer_scenario and ps = "[42]"] n1
  have w2: "\<exists>e. create ?one check_answer = Inl e" by blast
  from construction_arity [where func = check_answer and args = ?three and s = answer_scenario and ps = "[42]"] n3
  have w3: "\<exists>e. create ?three check_answer = Inl e" by blast
  from construction_arity [where func = check_answer and args = ?two and s = answer_scenario and ps = "[42]"] l1
  have "data answer_scenario [42] =
      Inr \<lparr>test_scenario = answer_scenario,
           params = dict_zip (field_ids (exec_args answer_scenario)) [42]\<rparr>"
    by blast
  then have w4: "data answer_scenario [42] = Inr (answer_case 42)"
    by (simp add: ids dz answer_case_def)
  from construction_arity [where func = check_answer and args = ?two and s = answer_scenario and ps = "[42, 43, 44]"] l3
  have "data answer_scenario [42, 43, 44] =
      Inl (FieldCountMismatch (func_name (wrapped_func answer_scenario))
             (length (filter isinstance_Param (exec_args answer_scenario))) (length [42::int, 43, 44]))"
    by blast
  then have w5: "data answer_scenario [42, 43, 44] = Inl (FieldCountMismatch ''test_answer'' 1 3)"
    by (simp add: f nm)
  from w1 w2 w3 w4 w5 show ?thesis by blast
qed

subsection \<open>The count of skipped cases\<close>

text \<open>
  C6. The claim is that \<open>skipped_testcases\<close> is the number of case results with judgement
  \<open>skipped\<close>. The code counts the entries of \<open>tc_results\<close> that are \<open>None\<close>;
  \<open>TestGroup.execute\<close> appends a result object for every case, so on its results the
  property is 0, however many cases were skipped.
\<close>

theorem skipped_testcases_zero:
  assumes "TestGroup_execute g ctx ns = (r, ns')"
  shows "skipped_testcases r = 0"
proof -
  have "\<forall>x \<in> set (tc_results r). x \<noteq> None"
    using TestGroup_execute_not_None [OF assms] by blast
  then show ?thesis by (simp add: skipped_testcases_def)
qed

theorem skipped_testcases_zero_witness:
  "map (map_option judgement) (tc_results (fst (TestGroup_execute group_fail plain_ctx artifact)))
     = [Some ''mistake'', Some ''skipped'']
   \<and> skipped_testcases (fst (TestGroup_execute group_fail plain_ctx artifact)) = 0"
proof -
  let ?r = "fst (TestGroup_execute group_fail plain_ctx artifact)"
  have h: "TestGroup_execute group_fail plain_ctx artifact = (?r, artifact)"
    by (simp add: fail_run)
  have "map (map_option judgement) (tc_results ?r) = [Some ''mistake'', Some ''skipped'']"
    by (simp add: fail_run do_skip_simps)
  with skipped_testcases_zero [OF h] show ?thesis by blast
qed

subsection \<open>The serialised group result\<close>

lemma judgements_all_Some:
  "\<forall>x \<in> set xs. x \<noteq> None \<Longrightarrow> judgements xs = Inr (map (\<lambda>x. JStr (judgement (the x))) xs)"
proof (induction xs)
  case Nil
  show ?case by simp
next
  case (Cons x xs)
  then obtain tc where "x = Some tc" by auto
  with Cons show ?case by simp
qed

text \<open>
  C8. For a result of \<open>TestGroup.execute\<close>, \<open>serialize\<close> returns the dict with the keys
  \<open>group_name\<close>, \<open>score_weight\<close>, \<open>score_earned\<close>, \<open>is_accepted\<close> and \<open>sub_results\<close>, in
  this order and no other, with the name and weight of the group. \<open>sub_results\<close> is a list
  of strings among \<open>accepted\<close>, \<open>mistake\<close> and \<open>skipped\<close>, one per declared case: the entry
  at each position is the judgement of the result whose parent is the case declared at
  that position.
\<close>

theorem serialize_group:
  assumes "TestGroup_execute g ctx ns = (r, ns')"
  shows "\<exists>js. TestGroupResult_serialize r =
            Inr [(''group_name'', JStr (name g)),
                 (''score_weight'', JInt (score_weight g)),
                 (''score_earned'', JInt (score_earned r)),
                 (''is_accepted'', JBool (is_accepted r)),
                 (''sub_results'', JList (map JStr js))]
          \<and> length js = length (all_test_cases g)
          \<and> set js \<subseteq> {''accepted'', ''mistake'', ''skipped''}
          \<and> map (map_option judgement) (tc_results r) = map Some js
          \<and> map (map_option parent) (tc_results r) = map Some (all_test_cases g)"
proof -
  let ?js = "map (\<lambda>x. judgement (the x)) (tc_results r)"
  note res = TestGroup_execute_results [OF assms]
  have p: "tg_parent r = g" using TestGroup_execute_loop [OF assms] by simp
  have len: "length (tc_results r) = length (all_test_cases g)"
    using res by (rule list_all2_lengthD)
  have each: "\<exists>tc. tc_results r ! i = Some tc \<and> parent tc = all_test_cases g ! i \<and>
      judgement tc \<in> {''accepted'', ''mistake'', ''skipped''}" if "i < length (tc_results r)" for i
    using TestGroup_execute_Some [OF assms that] .
  have some: "\<forall>x \<in> set (tc_results r). x \<noteq> None"
    using TestGroup_execute_not_None [OF assms] by blast
  have "judgements (tc_results r) = Inr (map JStr ?js)"
    using judgements_all_Some [OF some] by (simp add: comp_def)
  then have ser: "TestGroupResult_serialize r =
            Inr [(''group_name'', JStr (name g)),
                 (''score_weight'', JInt (score_weight g)),
                 (''score_earned'', JInt (score_earned r)),
                 (''is_accepted'', JBool (is_accepted r)),
                 (''sub_results'', JList (map JStr ?js))]"
    by (simp add: TestGroupResult_serialize_def p)
  have l: "length ?js = length (all_test_cases g)" using len by simp
  have s: "set ?js \<subseteq> {''accepted'', ''mistake'', ''skipped''}"
  proof
    fix j assume "j \<in> set ?js"
    then obtain i where i: "i < length (tc_results r)" and j: "j = judgement (the (tc_results r ! i))"
      by (auto simp: in_set_conv_nth)
    from each [OF i] j show "j \<in> {''accepted'', ''mistake'', ''skipped''}" by auto
  qed
  have m: "map (map_option judgement) (tc_results r) = map Some ?js"
  proof (rule nth_equalityI)
    show "length (map (map_option judgement) (tc_results r)) = length (map Some ?js)" by simp
  next
    fix i assume "i < length (map (map_option judgement) (tc_results r))"
    then have i: "i < length (tc_results r)" by simp
    from each [OF i] i show "map (map_option judgement) (tc_results r) ! i = map Some ?js ! i"
      by auto
  qed
  have q: "map (map_option parent) (tc_results r) = map Some (all_test_cases g)"
  proof (rule nth_equalityI)
    show "length (map (map_option parent) (tc_results r)) = length (map Some (all_test_cases g))"
      using len by simp
  next
    fix i assume "i < length (map (map_option parent) (tc_results r))"
    then have i: "i < length (tc_results r)" by simp
    from each [OF i] i len
    show "map (map_option parent) (tc_results r) ! i = map Some (all_test_cases g) ! i"
      by auto
  qed
  from ser l s m q show ?thesis by blast
qed

theorem serialize_group_witness:
  "TestGroupResult_serialize (fst (TestGroup_execute group_fail plain_ctx artifact)) =
     Inr [(''group_name'', JStr ''second''),
          (''score_weight'', JInt 20),
          (''score_earned'', JInt 0),
          (''is_accepted'', JBool False),
          (''sub_results'', JList [JStr ''mistake'', JStr ''skipped''])]"
proof -
  let ?r = "fst (TestGroup_execute group_fail plain_ctx artifact)"
  have h: "TestGroup_execute group_fail plain_ctx artifact = (?r, artifact)"
    by (simp add: fail_run)
  from serialize_group [OF h] obtain js where
    ser: "TestGroupResult_serialize ?r =
            Inr [(''group_name'', JStr (name group_fail)),
                 (''score_weight'', JInt (score_weight group_fail)),
                 (''score_earned'', JInt (score_earned ?r)),
                 (''is_accepted'', JBool (is_accepted ?r)),
                 (''sub_results'', JList (map JStr js))]"
    and js: "map (map_option judgement) (tc_results ?r) = map Some js"
    by blast
  have "map (map_option judgement) (tc_results ?r) = map Some [''mistake'', ''skipped'']"
    by (simp add: fail_run do_skip_simps)
  with js have "map Some js = map Some [''mistake'', ''skipped'']" by simp
  then have j: "js = [''mistake'', ''skipped'']"
    by (auto simp: map_eq_Cons_conv)
  have a: "is_accepted ?r = False" by (simp add: fail_run)
  have e: "score_earned ?r = 0" by (simp add: fail_run score_earned_def)
  have n: "name group_fail = ''second''" "score_weight group_fail = 20"
    by (simp_all add: group_fail_def)
  show ?thesis unfolding ser j a e n by simp
qed

subsection \<open>The loop of a suite\<close>

text \<open>Executing a case or a group does not read the console.\<close>

lemma capture_console: "capture (ctx\<lparr>console := k\<rparr>) e = capture ctx e"
  by (simp add: capture_def show_stack_trace_def)

lemma TestCase_execute_console:
  "TestCase_execute c (ctx\<lparr>console := k\<rparr>) ns = TestCase_execute c ctx ns"
  by (simp add: TestCase_execute_def capture_console split: sum.splits prod.splits option.splits)

lemma group_loop_console:
  "group_loop (ctx\<lparr>console := k\<rparr>) ns a rs cs = group_loop ctx ns a rs cs"
  by (induction cs arbitrary: ns a rs) (simp_all add: TestCase_execute_console)

lemma TestGroup_execute_console:
  "TestGroup_execute g (ctx\<lparr>console := k\<rparr>) ns = TestGroup_execute g ctx ns"
  by (simp add: TestGroup_execute_def group_loop_console)

text \<open>The message of a group result that \<open>TestGroup.execute\<close> returned is never an error.\<close>

lemma TestCaseResult_rich_message_ok:
  "judgement tc \<in> {''accepted'', ''mistake'', ''skipped''} \<Longrightarrow>
     \<exists>m. TestCaseResult_rich_message tc n = Inr m"
  by (auto simp: TestCaseResult_rich_message_def Let_def split: option.splits)

lemma case_messages_ok:
  "\<forall>x \<in> set rs. \<exists>tc. x = Some tc \<and> judgement tc \<in> {''accepted'', ''mistake'', ''skipped''} \<Longrightarrow>
     \<exists>ms. case_messages n rs = Inr ms"
proof (induction rs arbitrary: n)
  case Nil
  show ?case by simp
next
  case (Cons x rs)
  then obtain tc where x: "x = Some tc"
    and j: "judgement tc \<in> {''accepted'', ''mistake'', ''skipped''}" by auto
  from TestCaseResult_rich_message_ok [OF j] obtain m where
    m: "TestCaseResult_rich_message tc n = Inr m" by blast
  from Cons obtain ms where "case_messages (Suc n) rs = Inr ms" by fastforce
  with x m show ?case by simp
qed

lemma TestGroupResult_rich_message_ok:
  assumes "TestGroup_execute g ctx ns = (r, ns')"
  shows "\<exists>m. TestGroupResult_rich_message r = Inr m"
proof -
  have "\<forall>x \<in> set (tc_results r).
      \<exists>tc. x = Some tc \<and> judgement tc \<in> {''accepted'', ''mistake'', ''skipped''}"
  proof
    fix x assume "x \<in> set (tc_results r)"
    then obtain i where i: "i < length (tc_results r)" and x: "x = tc_results r ! i"
      by (auto simp: in_set_conv_nth)
    from TestGroup_execute_Some [OF assms i] x
    show "\<exists>tc. x = Some tc \<and> judgement tc \<in> {''accepted'', ''mistake'', ''skipped''}" by auto
  qed
  from case_messages_ok [OF this] obtain ms where "case_messages 1 (tc_results r) = Inr ms"
    by blast
  then show ?thesis by (simp add: TestGroupResult_rich_message_def)
qed

text \<open>One iteration of the loop of \<open>TestSuite.execute\<close>.\<close>

lemma suite_loop_step:
  assumes "TestGroup_execute g ctx ns = (r, ns1)"
  shows "\<exists>k. suite_loop ctx ns rs (g # gs) = suite_loop (ctx\<lparr>console := k\<rparr>) ns1 (rs @ [r]) gs"
proof -
  from TestGroupResult_rich_message_ok [OF assms] obtain m where
    m: "TestGroupResult_rich_message r = Inr m" by blast
  let ?k1 = "console_print (console ctx) (GradingTheQuestion (name g))"
  have "suite_loop ctx ns rs (g # gs) =
      suite_loop (ctx\<lparr>console := console_print ?k1 m\<rparr>) ns1 (rs @ [r]) gs"
    using assms m by (simp add: TestGroup_execute_console)
  then show ?thesis by blast
qed

text \<open>
  The loop never raises; it appends one result per group, each the result of
  \<open>TestGroup.execute\<close> on that group, and changes nothing of the context but the console.
\<close>

lemma suite_loop_total:
  "\<exists>rs' ns' k. suite_loop ctx ns rs gs = Inr (rs @ rs', ns', ctx\<lparr>console := k\<rparr>)
      \<and> map tg_parent rs' = gs
      \<and> (\<forall>x \<in> set rs'. \<exists>n n'. TestGroup_execute (tg_parent x) ctx n = (x, n'))"
proof (induction gs arbitrary: ctx ns rs)
  case Nil
  have "suite_loop ctx ns rs [] = Inr (rs @ [], ns, ctx\<lparr>console := console ctx\<rparr>)" by simp
  moreover have "map tg_parent [] = ([] :: ('a, 'b) TestGroup list)" by simp
  moreover have "\<forall>x \<in> set ([] :: ('a, 'b) TestGroupResult list).
      \<exists>n n'. TestGroup_execute (tg_parent x) ctx n = (x, n')" by simp
  ultimately show ?case by (intro exI conjI)
next
  case (Cons g gs)
  obtain r ns1 where ex: "TestGroup_execute g ctx ns = (r, ns1)"
    by (cases "TestGroup_execute g ctx ns")
  from suite_loop_step [OF ex, of rs gs] obtain k where
    step: "suite_loop ctx ns rs (g # gs) = suite_loop (ctx\<lparr>console := k\<rparr>) ns1 (rs @ [r]) gs"
    by (elim exE)
  from Cons.IH [of "ctx\<lparr>console := k\<rparr>" ns1 "rs @ [r]"] obtain rs' ns' k' where
    rest: "suite_loop (ctx\<lparr>console := k\<rparr>) ns1 (rs @ [r]) gs =
        Inr ((rs @ [r]) @ rs', ns', ctx\<lparr>console := k, console := k'\<rparr>)"
    and par: "map tg_parent rs' = gs"
    and each: "\<forall>x \<in> set rs'. \<exists>n n'. TestGroup_execute (tg_parent x) (ctx\<lparr>console := k\<rparr>) n = (x, n')"
    by (elim exE conjE)
  have p: "tg_parent r = g" using TestGroup_execute_loop [OF ex] by simp
  have a: "suite_loop ctx ns rs (g # gs) = Inr (rs @ (r # rs'), ns', ctx\<lparr>console := k'\<rparr>)"
    unfolding step rest by simp
  have b: "map tg_parent (r # rs') = g # gs" using p par by simp
  have "\<exists>n n'. TestGroup_execute (tg_parent r) ctx n = (r, n')"
    unfolding p using ex by (intro exI)
  moreover have "\<forall>x \<in> set rs'. \<exists>n n'. TestGroup_execute (tg_parent x) ctx n = (x, n')"
    using each unfolding TestGroup_execute_console .
  ultimately have c: "\<forall>x \<in> set (r # rs'). \<exists>n n'. TestGroup_execute (tg_parent x) ctx n = (x, n')"
    by simp
  from a b c show ?case by (intro exI conjI)
qed

lemma suite_loop_append:
  "suite_loop ctx ns rs (xs @ ys) =
     (case suite_loop ctx ns rs xs of
        Inl e \<Rightarrow> Inl e
      | Inr (rs', ns', ctx') \<Rightarrow> suite_loop ctx' ns' rs' ys)"
  by (induction xs arbitrary: ctx ns rs) (simp_all add: Let_def split: prod.splits sum.splits)

text \<open>What was printed before a run has no influence on its results or on the namespace.\<close>

lemma suite_loop_console:
  "map_sum id (\<lambda>(rs', ns', ctx'). (rs', ns')) (suite_loop (ctx\<lparr>console := k\<rparr>) ns rs gs) =
   map_sum id (\<lambda>(rs', ns', ctx'). (rs', ns')) (suite_loop ctx ns rs gs)"
proof (induction gs arbitrary: ctx k ns rs)
  case Nil
  show ?case by simp
next
  case (Cons g gs)
  obtain r ns1 where ex: "TestGroup_execute g ctx ns = (r, ns1)"
    by (cases "TestGroup_execute g ctx ns")
  then have ex': "TestGroup_execute g (ctx\<lparr>console := k\<rparr>) ns = (r, ns1)"
    by (simp add: TestGroup_execute_console)
  from suite_loop_step [OF ex, of rs gs] obtain k1 where
    s1: "suite_loop ctx ns rs (g # gs) = suite_loop (ctx\<lparr>console := k1\<rparr>) ns1 (rs @ [r]) gs"
    by (elim exE)
  from suite_loop_step [OF ex', of rs gs] obtain k2 where
    s2: "suite_loop (ctx\<lparr>console := k\<rparr>) ns rs (g # gs) =
        suite_loop (ctx\<lparr>console := k2\<rparr>) ns1 (rs @ [r]) gs"
    by auto
  show ?case
    unfolding s1 s2
    using Cons.IH [where ctx = ctx and k = k1 and ns = ns1 and rs = "rs @ [r]"]
      Cons.IH [where ctx = ctx and k = k2 and ns = ns1 and rs = "rs @ [r]"] by simp
qed

subsection \<open>A run of the two-group suite\<close>

lemma fail_message:
  "TestGroupResult_rich_message fail_result =
     Inr (Padding
        (Group
           [Group [CaseHeading 1 (Text '' MISTAKE FOUND '' ''bold black on red1''),
                   Padding (TracebackView (BriefTraceback (Raised ''AssertionError''))) [0, 4]],
            CaseHeading 2 (Text ''Skipped'' ''grey23''),
            SomeMistakeFound])
        [0, 4, 1, 4])"
  by (simp add: fail_result_def TestGroupResult_rich_message_def TestCaseResult_rich_message_def
      skipped_testcases_def do_skip_def group_fail_def)

lemma pass_message:
  "TestGroupResult_rich_message pass_result =
     Inr (Padding
        (Group
           [CaseHeading 1 (Text ''Correct'' ''deep_sky_blue1''),
            CaseHeading 2 (Text ''Correct'' ''deep_sky_blue1''),
            Congratulations])
        [0, 4, 1, 4])"
  by (simp add: pass_result_def TestGroupResult_rich_message_def TestCaseResult_rich_message_def
      skipped_testcases_def group_pass_def)

lemma two_groups_run:
  "TestSuite_execute two_groups (plain_ctx\<lparr>console := \<lparr>quiet = False, printed = before\<rparr>\<rparr>) artifact =
     Inr (\<lparr>tg_results = [fail_result, pass_result]\<rparr>, artifact,
          plain_ctx\<lparr>console := \<lparr>quiet = False, printed = before @ two_groups_printed\<rparr>\<rparr>)"
proof -
  have f: "TestGroup_execute group_fail plain_ctx artifact = (fail_result, artifact)"
    by (simp add: fail_run fail_result_def)
  have p: "TestGroup_execute group_pass plain_ctx artifact = (pass_result, artifact)"
    by (simp add: pass_run pass_result_def)
  have n: "name group_fail = ''second''" "name group_pass = ''first''"
    by (simp_all add: group_fail_def group_pass_def)
  show ?thesis
    by (simp add: TestSuite_execute_def two_groups_def Let_def TestGroup_execute_console f p n
        fail_message pass_message console_print_def two_groups_printed_def)
qed

subsection \<open>Executing a suite\<close>

lemma TestSuite_execute_total:
  "\<exists>rs ns' k. TestSuite_execute s ctx ns = Inr (\<lparr>tg_results = rs\<rparr>, ns', ctx\<lparr>console := k\<rparr>)
      \<and> map tg_parent rs = test_groups s
      \<and> (\<forall>x \<in> set rs. \<exists>n n'. TestGroup_execute (tg_parent x) ctx n = (x, n'))"
proof -
  from suite_loop_total [of ctx ns "[]" "test_groups s"] obtain rs ns' k where
    run: "suite_loop ctx ns [] (test_groups s) = Inr ([] @ rs, ns', ctx\<lparr>console := k\<rparr>)"
    and par: "map tg_parent rs = test_groups s"
    and each: "\<forall>x \<in> set rs. \<exists>n n'. TestGroup_execute (tg_parent x) ctx n = (x, n')"
    by (elim exE conjE)
  from run have "TestSuite_execute s ctx ns = Inr (\<lparr>tg_results = rs\<rparr>, ns', ctx\<lparr>console := k\<rparr>)"
    by (simp add: TestSuite_execute_def)
  with par each show ?thesis by (intro exI conjI)
qed

lemma TestSuite_execute_results:
  assumes "TestSuite_execute s ctx ns = Inr (r, ns', ctx')"
  shows "map tg_parent (tg_results r) = test_groups s"
    and "\<forall>x \<in> set (tg_results r). \<exists>n n'. TestGroup_execute (tg_parent x) ctx n = (x, n')"
    and "\<exists>k. ctx' = ctx\<lparr>console := k\<rparr>"
proof -
  from TestSuite_execute_total [of s ctx ns] obtain rs ns1 k where
    run: "TestSuite_execute s ctx ns = Inr (\<lparr>tg_results = rs\<rparr>, ns1, ctx\<lparr>console := k\<rparr>)"
    and par: "map tg_parent rs = test_groups s"
    and each: "\<forall>x \<in> set rs. \<exists>n n'. TestGroup_execute (tg_parent x) ctx n = (x, n')"
    by (elim exE conjE)
  from run assms have r: "r = \<lparr>tg_results = rs\<rparr>" and c: "ctx' = ctx\<lparr>console := k\<rparr>" by simp_all
  from r par show "map tg_parent (tg_results r) = test_groups s" by simp
  from r each show "\<forall>x \<in> set (tg_results r). \<exists>n n'. TestGroup_execute (tg_parent x) ctx n = (x, n')"
    by simp
  from c show "\<exists>k. ctx' = ctx\<lparr>console := k\<rparr>" by (rule exI)
qed

text \<open>
  C3. For a result of \<open>TestSuite.execute\<close>, \<open>score_earned\<close> is the sum of the
  \<open>score_earned\<close> of its group results, \<open>total_weight\<close> is the sum of the \<open>score_weight\<close>
  of the groups of the suite, and \<open>is_perfect\<close> holds exactly when every group result is
  accepted.
\<close>

theorem suite_totals:
  assumes "TestSuite_execute s ctx ns = Inr (r, ns', ctx')"
  shows "suite_score_earned r = sum_list (map score_earned (tg_results r))
       \<and> total_weight r = sum_list (map score_weight (test_groups s))
       \<and> (is_perfect r \<longleftrightarrow> (\<forall>x \<in> set (tg_results r). is_accepted x))"
proof -
  have "map (\<lambda>x. score_weight (tg_parent x)) (tg_results r) =
      map score_weight (map tg_parent (tg_results r))" by simp
  with TestSuite_execute_results(1) [OF assms]
  have "total_weight r = sum_list (map score_weight (test_groups s))"
    by (simp only: total_weight_def)
  then show ?thesis
    by (simp add: suite_score_earned_def is_perfect_def list_all_iff)
qed

theorem suite_totals_witness:
  "TestSuite_execute two_groups plain_ctx artifact =
     Inr (\<lparr>tg_results = [fail_result, pass_result]\<rparr>, artifact,
          plain_ctx\<lparr>console := \<lparr>quiet = False, printed = two_groups_printed\<rparr>\<rparr>)
   \<and> suite_score_earned \<lparr>tg_results = [fail_result, pass_result]\<rparr> = 10
   \<and> total_weight \<lparr>tg_results = [fail_result, pass_result]\<rparr> = 30
   \<and> \<not> is_perfect \<lparr>tg_results = [fail_result, pass_result]\<rparr>"
proof -
  let ?r = "\<lparr>tg_results = [fail_result, pass_result]\<rparr>"
  have c: "plain_ctx\<lparr>console := \<lparr>quiet = False, printed = []\<rparr>\<rparr> = plain_ctx"
    by (simp add: plain_ctx_def)
  from two_groups_run [of "[]"]
  have h: "TestSuite_execute two_groups plain_ctx artifact =
     Inr (?r, artifact, plain_ctx\<lparr>console := \<lparr>quiet = False, printed = two_groups_printed\<rparr>\<rparr>)"
    unfolding c by simp
  note t = suite_totals [OF h]
  have "sum_list (map score_earned (tg_results ?r)) = 10"
    by (simp add: score_earned_def fail_result_def pass_result_def group_pass_def)
  with t have s: "suite_score_earned ?r = 10" by simp
  have "sum_list (map score_weight (test_groups two_groups)) = 30"
    by (simp add: two_groups_def group_fail_def group_pass_def)
  with t have w: "total_weight ?r = 30" by simp
  have "\<not> (\<forall>x \<in> set (tg_results ?r). is_accepted x)"
    by (simp add: fail_result_def)
  with t have p: "\<not> is_perfect ?r" by blast
  from h s w p show ?thesis by blast
qed

text \<open>
  C7. \<open>TestSuite.execute\<close> never raises and returns one group result per group of the
  suite, in the declared order. Every group is executed, whatever the earlier groups
  gave: the result at position \<open>i\<close> is the result of \<open>TestGroup.execute\<close> on the group
  declared at \<open>i\<close>, against the namespace that the run of the first \<open>i\<close> groups leaves,
  and this holds with no condition on the results of those groups.
\<close>

theorem suite_runs_every_group:
  "\<exists>r ns' ctx'. TestSuite_execute s ctx ns = Inr (r, ns', ctx')
      \<and> map tg_parent (tg_results r) = test_groups s
      \<and> (\<forall>i < length (test_groups s). \<exists>ri nsi ctxi.
            TestSuite_execute (s\<lparr>test_groups := take i (test_groups s)\<rparr>) ctx ns = Inr (ri, nsi, ctxi)
            \<and> tg_results ri = take i (tg_results r)
            \<and> tg_results r ! i = fst (TestGroup_execute (test_groups s ! i) ctx nsi))"
proof -
  let ?gs = "test_groups s"
  from suite_loop_total [of ctx ns "[]" ?gs] obtain rs ns' k where
    full: "suite_loop ctx ns [] ?gs = Inr ([] @ rs, ns', ctx\<lparr>console := k\<rparr>)"
    and par: "map tg_parent rs = ?gs"
    by (elim exE conjE)
  have run: "TestSuite_execute s ctx ns = Inr (\<lparr>tg_results = rs\<rparr>, ns', ctx\<lparr>console := k\<rparr>)"
    using full by (simp add: TestSuite_execute_def)
  have each: "\<exists>ri nsi ctxi.
      TestSuite_execute (s\<lparr>test_groups := take i ?gs\<rparr>) ctx ns = Inr (ri, nsi, ctxi)
      \<and> tg_results ri = take i rs
      \<and> rs ! i = fst (TestGroup_execute (?gs ! i) ctx nsi)" if i: "i < length ?gs" for i
  proof -
    let ?rest = "drop (Suc i) ?gs"
    from suite_loop_total [of ctx ns "[]" "take i ?gs"] obtain rsi nsi ki where
      pre: "suite_loop ctx ns [] (take i ?gs) = Inr ([] @ rsi, nsi, ctx\<lparr>console := ki\<rparr>)"
      and pari: "map tg_parent rsi = take i ?gs"
      by (elim exE conjE)
    have leni: "length rsi = i"
    proof -
      have "length (map tg_parent rsi) = length (take i ?gs)" by (simp only: pari)
      with i show ?thesis by simp
    qed
    obtain r1 ns1 where ex: "TestGroup_execute (?gs ! i) ctx nsi = (r1, ns1)"
      by (cases "TestGroup_execute (?gs ! i) ctx nsi")
    then have ex': "TestGroup_execute (?gs ! i) (ctx\<lparr>console := ki\<rparr>) nsi = (r1, ns1)"
      by (simp add: TestGroup_execute_console)
    from suite_loop_step [OF ex', of rsi ?rest] obtain k2 where
      step: "suite_loop (ctx\<lparr>console := ki\<rparr>) nsi rsi (?gs ! i # ?rest) =
          suite_loop (ctx\<lparr>console := ki, console := k2\<rparr>) ns1 (rsi @ [r1]) ?rest"
      by (elim exE)
    from suite_loop_total [of "ctx\<lparr>console := ki, console := k2\<rparr>" ns1 "rsi @ [r1]" ?rest]
    obtain rs2 ns2 c2 where
      post: "suite_loop (ctx\<lparr>console := ki, console := k2\<rparr>) ns1 (rsi @ [r1]) ?rest =
          Inr ((rsi @ [r1]) @ rs2, ns2, c2)"
      by (elim exE conjE)
    have "?gs = take i ?gs @ (?gs ! i # ?rest)"
      using i by (simp add: id_take_nth_drop)
    then have "suite_loop ctx ns [] ?gs = suite_loop ctx ns [] (take i ?gs @ (?gs ! i # ?rest))"
      by simp
    also have "\<dots> = suite_loop (ctx\<lparr>console := ki\<rparr>) nsi rsi (?gs ! i # ?rest)"
      using pre by (simp only: suite_loop_append append_Nil sum.case prod.case)
    also have "\<dots> = Inr ((rsi @ [r1]) @ rs2, ns2, c2)"
      by (simp only: step post)
    finally have "rs = rsi @ r1 # rs2" using full by simp
    with leni have t: "take i rs = rsi" and n: "rs ! i = r1"
      by (simp_all add: nth_append)
    have "TestSuite_execute (s\<lparr>test_groups := take i ?gs\<rparr>) ctx ns =
        Inr (\<lparr>tg_results = rsi\<rparr>, nsi, ctx\<lparr>console := ki\<rparr>)"
      using pre by (simp add: TestSuite_execute_def)
    moreover have "tg_results \<lparr>tg_results = rsi\<rparr> = take i rs" using t by simp
    moreover have "rs ! i = fst (TestGroup_execute (?gs ! i) ctx nsi)" using n ex by simp
    ultimately show ?thesis by (intro exI conjI)
  qed
  have "map tg_parent (tg_results \<lparr>tg_results = rs\<rparr>) = ?gs" using par by simp
  moreover have "\<forall>i < length ?gs. \<exists>ri nsi ctxi.
      TestSuite_execute (s\<lparr>test_groups := take i ?gs\<rparr>) ctx ns = Inr (ri, nsi, ctxi)
      \<and> tg_results ri = take i (tg_results \<lparr>tg_results = rs\<rparr>)
      \<and> tg_results \<lparr>tg_results = rs\<rparr> ! i = fst (TestGroup_execute (?gs ! i) ctx nsi)"
    using each by simp
  ultimately show ?thesis using run by (intro exI conjI)
qed

theorem suite_runs_every_group_witness:
  "TestSuite_execute two_groups plain_ctx artifact =
     Inr (\<lparr>tg_results = [fail_result, pass_result]\<rparr>, artifact,
          plain_ctx\<lparr>console := \<lparr>quiet = False, printed = two_groups_printed\<rparr>\<rparr>)
   \<and> map tg_parent [fail_result, pass_result] = [group_fail, group_pass]
   \<and> \<not> is_accepted fail_result
   \<and> pass_result = fst (TestGroup_execute group_pass plain_ctx artifact)"
proof -
  let ?r = "\<lparr>tg_results = [fail_result, pass_result]\<rparr>"
  have c: "plain_ctx\<lparr>console := \<lparr>quiet = False, printed = []\<rparr>\<rparr> = plain_ctx"
    by (simp add: plain_ctx_def)
  from two_groups_run [of "[]"]
  have h: "TestSuite_execute two_groups plain_ctx artifact =
     Inr (?r, artifact, plain_ctx\<lparr>console := \<lparr>quiet = False, printed = two_groups_printed\<rparr>\<rparr>)"
    unfolding c by simp
  have f: "TestGroup_execute group_fail plain_ctx artifact = (fail_result, artifact)"
    by (simp add: fail_run fail_result_def)
  have one: "(case TestSuite_execute (two_groups\<lparr>test_groups := take 1 (test_groups two_groups)\<rparr>)
      plain_ctx artifact of Inl e \<Rightarrow> False | Inr (r, n, c) \<Rightarrow> n = artifact)"
    by (simp add: TestSuite_execute_def two_groups_def Let_def TestGroup_execute_console f
        fail_message)
  from suite_runs_every_group [of two_groups plain_ctx artifact] h
  have par: "map tg_parent (tg_results ?r) = test_groups two_groups"
    and each: "\<forall>i < length (test_groups two_groups). \<exists>ri nsi ctxi.
        TestSuite_execute (two_groups\<lparr>test_groups := take i (test_groups two_groups)\<rparr>)
          plain_ctx artifact = Inr (ri, nsi, ctxi)
        \<and> tg_results ri = take i (tg_results ?r)
        \<and> tg_results ?r ! i = fst (TestGroup_execute (test_groups two_groups ! i) plain_ctx nsi)"
    by auto
  have "(1::nat) < length (test_groups two_groups)" by (simp add: two_groups_def)
  with each obtain ri nsi ctxi where
    pre: "TestSuite_execute (two_groups\<lparr>test_groups := take 1 (test_groups two_groups)\<rparr>)
          plain_ctx artifact = Inr (ri, nsi, ctxi)"
    and at: "tg_results ?r ! 1 = fst (TestGroup_execute (test_groups two_groups ! 1) plain_ctx nsi)"
    by blast
  from pre one have "nsi = artifact" by simp
  with at have p: "pass_result = fst (TestGroup_execute group_pass plain_ctx artifact)"
    by (simp add: two_groups_def)
  from par have m: "map tg_parent [fail_result, pass_result] = [group_fail, group_pass]"
    by (simp add: two_groups_def)
  have a: "\<not> is_accepted fail_result" by (simp add: fail_result_def)
  from h m a p show ?thesis by blast
qed

subsection \<open>Running a suite again\<close>

lemma TestSuite_execute_loop:
  assumes "TestSuite_execute s ctx ns = Inr (r, ns', ctx')"
  shows "suite_loop ctx ns [] (test_groups s) = Inr (tg_results r, ns', ctx')"
  using assms by (auto simp: TestSuite_execute_def split: sum.splits prod.splits)

lemma TestGroupResult_serialize_ok:
  assumes "TestGroup_execute g ctx ns = (r, ns')"
  shows "\<exists>d. TestGroupResult_serialize r = Inr d"
proof -
  have "\<forall>x \<in> set (tc_results r). x \<noteq> None"
    using TestGroup_execute_not_None [OF assms] by blast
  from judgements_all_Some [OF this] show ?thesis
    by (simp add: TestGroupResult_serialize_def)
qed

lemma serialize_groups_ok:
  "\<forall>x \<in> set rs. \<exists>n n'. TestGroup_execute (tg_parent x) ctx n = (x, n') \<Longrightarrow>
     \<exists>ds. serialize_groups rs = Inr ds"
proof (induction rs)
  case Nil
  show ?case by simp
next
  case (Cons x rs)
  then obtain n n' where "TestGroup_execute (tg_parent x) ctx n = (x, n')" by auto
  from TestGroupResult_serialize_ok [OF this] obtain d where
    d: "TestGroupResult_serialize x = Inr d" by (elim exE)
  from Cons obtain ds where "serialize_groups rs = Inr ds" by auto
  with d show ?case by simp
qed

text \<open>
  C9. Run a suite, and run it again with the context as the first run left it (its
  console now holds what the first run printed) against the same namespace, the first
  run having left the namespace as it found it. Then the second run returns the same
  result, its serialised report is the report of the first run, and the report is a
  value, not an error. Routines are functions of their arguments and the namespace in
  this embedding, which is the determinism the claim assumes.
\<close>

theorem rerun_same_report:
  assumes "TestSuite_execute s ctx ns = Inr (r1, ns1, ctx1)"
    and "ns1 = ns"
    and "TestSuite_execute s ctx1 ns1 = Inr (r2, ns2, ctx2)"
  shows "TestSuiteResult_serialize r2 = TestSuiteResult_serialize r1
       \<and> (\<exists>d. TestSuiteResult_serialize r1 = Inr d)
       \<and> r2 = r1 \<and> ns2 = ns1"
proof -
  let ?gs = "test_groups s"
  let ?f = "\<lambda>(rs', ns', ctx'). (rs', ns')"
  from TestSuite_execute_results(3) [OF assms(1)] obtain k where k: "ctx1 = ctx\<lparr>console := k\<rparr>"
    by (elim exE)
  have l1: "suite_loop ctx ns [] ?gs = Inr (tg_results r1, ns1, ctx1)"
    by (rule TestSuite_execute_loop [OF assms(1)])
  have l2: "suite_loop (ctx\<lparr>console := k\<rparr>) ns [] ?gs = Inr (tg_results r2, ns2, ctx2)"
    using TestSuite_execute_loop [OF assms(3)] assms(2) k by simp
  from suite_loop_console [where ctx = ctx and k = k and ns = ns and rs = "[]" and gs = ?gs]
  have "tg_results r2 = tg_results r1" and n: "ns2 = ns1"
    unfolding l1 l2 by simp_all
  then have r: "r2 = r1" by simp
  from serialize_groups_ok [OF TestSuite_execute_results(2) [OF assms(1)]]
  obtain ds where "serialize_groups (tg_results r1) = Inr ds" by (elim exE)
  then have "\<exists>d. TestSuiteResult_serialize r1 = Inr d"
    by (simp add: TestSuiteResult_serialize_def)
  with r n show ?thesis by simp
qed

theorem rerun_same_report_witness:
  "TestSuite_execute two_groups plain_ctx artifact =
     Inr (\<lparr>tg_results = [fail_result, pass_result]\<rparr>, artifact,
          plain_ctx\<lparr>console := \<lparr>quiet = False, printed = two_groups_printed\<rparr>\<rparr>)
   \<and> TestSuite_execute two_groups
       (plain_ctx\<lparr>console := \<lparr>quiet = False, printed = two_groups_printed\<rparr>\<rparr>) artifact =
     Inr (\<lparr>tg_results = [fail_result, pass_result]\<rparr>, artifact,
          plain_ctx\<lparr>console :=
            \<lparr>quiet = False, printed = two_groups_printed @ two_groups_printed\<rparr>\<rparr>)
   \<and> TestSuiteResult_serialize \<lparr>tg_results = [fail_result, pass_result]\<rparr> =
     Inr [(''total_weight'', JInt 30),
          (''score_earned'', JInt 10),
          (''test_groups'',
           JList [JDict [(''group_name'', JStr ''second''),
                         (''score_weight'', JInt 20),
                         (''score_earned'', JInt 0),
                         (''is_accepted'', JBool False),
                         (''sub_results'', JList [JStr ''mistake'', JStr ''skipped''])],
                  JDict [(''group_name'', JStr ''first''),
                         (''score_weight'', JInt 10),
                         (''score_earned'', JInt 10),
                         (''is_accepted'', JBool True),
                         (''sub_results'', JList [JStr ''accepted'', JStr ''accepted''])]])]"
proof -
  let ?r = "\<lparr>tg_results = [fail_result, pass_result]\<rparr>"
  let ?c1 = "plain_ctx\<lparr>console := \<lparr>quiet = False, printed = two_groups_printed\<rparr>\<rparr>"
  let ?c2 = "plain_ctx\<lparr>console := \<lparr>quiet = False, printed = two_groups_printed @ two_groups_printed\<rparr>\<rparr>"
  have c: "plain_ctx\<lparr>console := \<lparr>quiet = False, printed = []\<rparr>\<rparr> = plain_ctx"
    by (simp add: plain_ctx_def)
  from two_groups_run [of "[]"]
  have h1: "TestSuite_execute two_groups plain_ctx artifact = Inr (?r, artifact, ?c1)"
    unfolding c by simp
  have h2: "artifact = artifact" by (rule refl)
  have h3: "TestSuite_execute two_groups ?c1 artifact = Inr (?r, artifact, ?c2)"
    by (rule two_groups_run)
  note same = rerun_same_report [OF h1 h2 h3]
  have "TestSuiteResult_serialize ?r =
     Inr [(''total_weight'', JInt 30),
          (''score_earned'', JInt 10),
          (''test_groups'',
           JList [JDict [(''group_name'', JStr ''second''),
                         (''score_weight'', JInt 20),
                         (''score_earned'', JInt 0),
                         (''is_accepted'', JBool False),
                         (''sub_results'', JList [JStr ''mistake'', JStr ''skipped''])],
                  JDict [(''group_name'', JStr ''first''),
                         (''score_weight'', JInt 10),
                         (''score_earned'', JInt 10),
                         (''is_accepted'', JBool True),
                         (''sub_results'', JList [JStr ''accepted'', JStr ''accepted''])]])]"
    by (simp add: TestSuiteResult_serialize_def TestGroupResult_serialize_def total_weight_def
        suite_score_earned_def score_earned_def fail_result_def pass_result_def do_skip_def
        group_fail_def group_pass_def)
  with same h1 h3 show ?thesis by blast
qed

end
